theory Spec2Isabelle
  imports Complex_Main "HOL-Library.Word"
begin

section \<open>JavaScript values\<close>

text \<open>
  A JavaScript string is a sequence of UTF-16 code units and \<open>s.length\<close> counts
  code units, so a string is a list of 16-bit words. \<open>ascii\<close> writes a literal of the
  source whose characters are all ASCII (every literal of the route and of the page is).
\<close>

type_synonym jstring = "16 word list"

definition ascii :: "string \<Rightarrow> jstring" where
  "ascii s = map (\<lambda>c. of_nat (of_char c)) s"

text \<open>
  The numbers that \<open>JSON.parse\<close> and \<open>Number(...)\<close> of an input's value produce: a
  finite double, taken with its exact rational value, or an infinity (\<open>1e999\<close>).
\<close>

datatype js_number = Finite rat | PosInfinity | NegInfinity

datatype js_value =
    JUndefined
  | JNull
  | JBool bool
  | JNumber js_number
  | JString jstring
  | JArray "js_value list"
  | JObject "(jstring \<times> js_value) list"

text \<open>\<open>data[key]\<close> and \<open>key in data\<close> on the properties of an object.\<close>

definition get_prop :: "(jstring \<times> js_value) list \<Rightarrow> jstring \<Rightarrow> js_value" where
  "get_prop data key = (case map_of data key of None \<Rightarrow> JUndefined | Some v \<Rightarrow> v)"

definition has_key :: "(jstring \<times> js_value) list \<Rightarrow> jstring \<Rightarrow> bool" where
  "has_key data key = (map_of data key \<noteq> None)"

text \<open>What the handler lets escape: \<open>request.json()\<close> rejects, \<open>parse\<close> throws.\<close>

datatype js_exception = SyntaxError | ZodError

section \<open>The zod combinators used by the route\<close>

text \<open>
  A schema maps the value found at a place (\<open>JUndefined\<close> where the key is absent) to
  the parsed value, or fails; \<open>parse\<close> then throws a \<open>ZodError\<close>, of which the model keeps
  that it is thrown and not the list of issues. \<open>z.string()\<close> and \<open>z.number()\<close> carry the
  list of checks that \<open>.min\<close>, \<open>.max\<close> and \<open>.int\<close> append: \<open>.min(n)\<close> of a string compares
  \<open>n\<close> with its \<open>length\<close>, \<open>.int()\<close> is \<open>Number.isInteger\<close>, \<open>.min\<close> and \<open>.max\<close> of a number
  are inclusive. \<open>.optional()\<close> lets \<open>undefined\<close> through and nothing else (not \<open>null\<close>).
\<close>

type_synonym zod_schema = "js_value \<Rightarrow> js_exception + js_value"

datatype string_check = StrMin nat

datatype number_check = NumInt | NumMin rat | NumMax rat

fun string_check_ok :: "jstring \<Rightarrow> string_check \<Rightarrow> bool" where
  "string_check_ok s (StrMin n) = (n \<le> length s)"

definition Number_isInteger :: "js_number \<Rightarrow> bool" where
  "Number_isInteger x = (case x of Finite r \<Rightarrow> of_int \<lfloor>r\<rfloor> = r | _ \<Rightarrow> False)"

fun number_check_ok :: "js_number \<Rightarrow> number_check \<Rightarrow> bool" where
  "number_check_ok x NumInt = Number_isInteger x"
| "number_check_ok (Finite r) (NumMin m) = (m \<le> r)"
| "number_check_ok PosInfinity (NumMin m) = True"
| "number_check_ok NegInfinity (NumMin m) = False"
| "number_check_ok (Finite r) (NumMax m) = (r \<le> m)"
| "number_check_ok PosInfinity (NumMax m) = False"
| "number_check_ok NegInfinity (NumMax m) = True"

definition z_string :: "string_check list \<Rightarrow> zod_schema" where
  "z_string checks v =
     (case v of
        JString s \<Rightarrow> if list_all (string_check_ok s) checks then Inr (JString s) else Inl ZodError
      | _ \<Rightarrow> Inl ZodError)"

definition z_number :: "number_check list \<Rightarrow> zod_schema" where
  "z_number checks v =
     (case v of
        JNumber x \<Rightarrow> if list_all (number_check_ok x) checks then Inr (JNumber x) else Inl ZodError
      | _ \<Rightarrow> Inl ZodError)"

definition z_optional :: "zod_schema \<Rightarrow> zod_schema" where
  "z_optional inner v = (if v = JUndefined then Inr JUndefined else inner v)"

fun parse_items :: "zod_schema \<Rightarrow> js_value list \<Rightarrow> js_exception + js_value list" where
  "parse_items element [] = Inr []"
| "parse_items element (x # xs) =
     (case element x of
        Inl e \<Rightarrow> Inl e
      | Inr y \<Rightarrow> (case parse_items element xs of Inl e \<Rightarrow> Inl e | Inr ys \<Rightarrow> Inr (y # ys)))"

definition z_array :: "zod_schema \<Rightarrow> zod_schema" where
  "z_array element v =
     (case v of
        JArray xs \<Rightarrow> (case parse_items element xs of Inl e \<Rightarrow> Inl e | Inr ys \<Rightarrow> Inr (JArray ys))
      | _ \<Rightarrow> Inl ZodError)"

text \<open>
  \<open>z.object(shape)\<close> walks the keys of the shape, not those of the data: a key of the
  data that the shape does not name is dropped (zod's default \<open>strip\<close>), and a key of
  the shape that is absent from the data and parses to \<open>undefined\<close> is not set.
\<close>

fun parse_shape ::
  "(jstring \<times> zod_schema) list \<Rightarrow> (jstring \<times> js_value) list \<Rightarrow>
   js_exception + (jstring \<times> js_value) list" where
  "parse_shape [] data = Inr []"
| "parse_shape ((key, field) # shape) data =
     (case field (get_prop data key) of
        Inl e \<Rightarrow> Inl e
      | Inr v \<Rightarrow>
          (case parse_shape shape data of
             Inl e \<Rightarrow> Inl e
           | Inr rest \<Rightarrow>
               Inr (if v \<noteq> JUndefined \<or> has_key data key then (key, v) # rest else rest)))"

definition z_object :: "(jstring \<times> zod_schema) list \<Rightarrow> zod_schema" where
  "z_object shape v =
     (case v of
        JObject data \<Rightarrow> (case parse_shape shape data of Inl e \<Rightarrow> Inl e | Inr out \<Rightarrow> Inr (JObject out))
      | _ \<Rightarrow> Inl ZodError)"

section \<open>The route: \<open>payloadSchema\<close> and \<open>POST\<close>\<close>

definition payloadShape :: "(jstring \<times> zod_schema) list" where
  "payloadShape =
     [(ascii ''topic'', z_string [StrMin 3]),
      (ascii ''targetAudience'', z_string [StrMin 3]),
      (ascii ''contentGoals'', z_string [StrMin 3]),
      (ascii ''tone'', z_optional (z_string [])),
      (ascii ''keywords'', z_optional (z_array (z_string [StrMin 1]))),
      (ascii ''callToAction'', z_optional (z_string [])),
      (ascii ''durationSeconds'', z_optional (z_number [NumInt, NumMin 30, NumMax 300]))]"

definition payloadSchema :: zod_schema where
  "payloadSchema = z_object payloadShape"

text \<open>
  \<open>runAutomationPipeline\<close> is imported from \<open>@/lib/pipeline\<close> and is a parameter of the
  handler. The handler sees of a run only the arguments of the successive \<open>onStatus\<close>
  calls made until the awaited promise settles, and how it settles (a synchronous throw
  inside the \<open>try\<close> block counts as a rejection). A rejection is an instance of \<open>Error\<close>,
  with its \<open>message\<close> and its other properties (a stage, a cause), or any other thrown
  value. A promise that never settles leaves the handler without a response.
\<close>

datatype thrown = ErrorInstance jstring "(jstring \<times> js_value) list" | NonError js_value

datatype settlement = Resolves js_value | Rejects thrown | NeverSettles

record pipeline_run =
  emitted :: "js_value list"
  settled :: settlement

record response =
  status_code :: nat
  json_body :: js_value

datatype handler_outcome = Responded response | Threw js_exception | NoResponse

text \<open>
  The result of one invocation of the handler, with the arguments of every call of
  \<open>runAutomationPipeline\<close> it made.
\<close>

record handler_result =
  outcome :: handler_outcome
  pipeline_calls :: "js_value list"

datatype request = Request "js_exception + js_value"

fun request_json :: "request \<Rightarrow> js_exception + js_value" where
  "request_json (Request r) = r"

text \<open>\<open>statusUpdates.push(status)\<close> appends at the end.\<close>

definition push :: "js_value list \<Rightarrow> js_value \<Rightarrow> js_value list" where
  "push xs x = xs @ [x]"

text \<open>
  \<open>NextResponse.json(body, {status})\<close>; the status is 200 when no \<open>init\<close> is given. The
  body of the response is kept as the object that the handler passes.
\<close>

definition NextResponse_json :: "js_value \<Rightarrow> nat \<Rightarrow> response" where
  "NextResponse_json b s = \<lparr>status_code = s, json_body = b\<rparr>"

text \<open>\<open>error instanceof Error ? error.message : "Unknown pipeline failure"\<close>\<close>

definition error_message :: "thrown \<Rightarrow> jstring" where
  "error_message error =
     (case error of
        ErrorInstance message props \<Rightarrow> message
      | NonError v \<Rightarrow> ascii ''Unknown pipeline failure'')"

text \<open>
  \<open>request.json()\<close> and \<open>payloadSchema.parse(body)\<close> come before the \<open>try\<close> block: what they
  throw escapes the handler. Only then is \<open>statusUpdates\<close> created and the pipeline called,
  inside the \<open>try\<close> block whose \<open>catch\<close> builds the failure envelope.
\<close>

definition POST :: "(js_value \<Rightarrow> pipeline_run) \<Rightarrow> request \<Rightarrow> handler_result" where
  "POST runAutomationPipeline req =
     (case request_json req of
        Inl e \<Rightarrow> \<lparr>outcome = Threw e, pipeline_calls = []\<rparr>
      | Inr body \<Rightarrow>
          (case payloadSchema body of
             Inl e \<Rightarrow> \<lparr>outcome = Threw e, pipeline_calls = []\<rparr>
           | Inr parsed \<Rightarrow>
               (let run = runAutomationPipeline parsed;
                    statusUpdates = foldl push [] (emitted run)
                in \<lparr>outcome =
                      (case settled run of
                         Resolves result \<Rightarrow>
                           Responded (NextResponse_json
                             (JObject [(ascii ''ok'', JBool True),
                                       (ascii ''result'', result),
                                       (ascii ''statusUpdates'', JArray statusUpdates)]) 200)
                       | Rejects error \<Rightarrow>
                           Responded (NextResponse_json
                             (JObject [(ascii ''ok'', JBool False),
                                       (ascii ''error'', JString (error_message error)),
                                       (ascii ''statusUpdates'', JArray statusUpdates)]) 500)
                       | NeverSettles \<Rightarrow> NoResponse),
                    pipeline_calls = [parsed]\<rparr>)))"

section \<open>The page: the form and what it submits\<close>

text \<open>
  \<open>durationSeconds\<close> is \<open>Number(event.target.value)\<close> of a number input, whose value is
  the empty string or a valid floating-point number: a finite number.
\<close>

record FormState =
  topic :: jstring
  targetAudience :: jstring
  contentGoals :: jstring
  tone :: jstring
  "keywords" :: jstring
  callToAction :: jstring
  durationSeconds :: rat

definition initialForm :: FormState where
  "initialForm =
     \<lparr>topic = ascii ''AI automation for video creators'',
      targetAudience = ascii ''Busy YouTubers and content marketers'',
      contentGoals = ascii ''Educate viewers on automating their video workflow'',
      tone = ascii ''Energetic and insightful'',
      keywords = ascii ''automation, AI tools, YouTube growth'',
      callToAction = ascii ''Subscribe for weekly automation playbooks'',
      durationSeconds = 120\<rparr>"

text \<open>\<open>s.split(",")\<close>: the pieces between the commas, \<open>[""]\<close> for the empty string.\<close>

fun split_comma :: "jstring \<Rightarrow> jstring list" where
  "split_comma [] = [[]]"
| "split_comma (c # cs) =
     (if c = 0x2C then [] # split_comma cs
      else (case split_comma cs of [] \<Rightarrow> [[c]] | w # ws \<Rightarrow> (c # w) # ws))"

text \<open>\<open>s.trim()\<close> removes the white space and line terminators of ECMAScript at both ends.\<close>

definition is_white_space :: "16 word \<Rightarrow> bool" where
  "is_white_space c =
     (c = 0x9 \<or> c = 0xA \<or> c = 0xB \<or> c = 0xC \<or> c = 0xD \<or> c = 0x20 \<or> c = 0xA0 \<or>
      c = 0x1680 \<or> (0x2000 \<le> c \<and> c \<le> 0x200A) \<or> c = 0x2028 \<or> c = 0x2029 \<or>
      c = 0x202F \<or> c = 0x205F \<or> c = 0x3000 \<or> c = 0xFEFF)"

definition trim :: "jstring \<Rightarrow> jstring" where
  "trim s = rev (dropWhile is_white_space (rev (dropWhile is_white_space s)))"

text \<open>\<open>filter(Boolean)\<close> on strings keeps the non-empty ones.\<close>

definition keyword_list :: "jstring \<Rightarrow> jstring list" where
  "keyword_list s = filter (\<lambda>keyword. keyword \<noteq> []) (map trim (split_comma s))"

text \<open>The object that \<open>handleSubmit\<close> serialises as the body of its request.\<close>

definition handleSubmit_body :: "FormState \<Rightarrow> js_value" where
  "handleSubmit_body form =
     JObject
       [(ascii ''topic'', JString (topic form)),
        (ascii ''targetAudience'', JString (targetAudience form)),
        (ascii ''contentGoals'', JString (contentGoals form)),
        (ascii ''tone'', JString (tone form)),
        (ascii ''callToAction'', JString (callToAction form)),
        (ascii ''durationSeconds'', JNumber (Finite (durationSeconds form))),
        (ascii ''keywords'', JArray (map JString (keyword_list (keywords form))))]"

text \<open>
  The constraints that the attributes of the inputs declare, which the browser checks
  before it lets the form submit: \<open>required\<close> on the topic, the target audience and the
  content goals (the value is not empty); \<open>type="number" min={30} max={300}\<close> on the
  duration, with the default step 1 counted from the minimum. The tone, the keywords
  and the call to action carry no attribute.
\<close>

definition form_constraints_ok :: "FormState \<Rightarrow> bool" where
  "form_constraints_ok form =
     (topic form \<noteq> [] \<and> targetAudience form \<noteq> [] \<and> contentGoals form \<noteq> [] \<and>
      30 \<le> durationSeconds form \<and> durationSeconds form \<le> 300 \<and>
      of_int \<lfloor>durationSeconds form - 30\<rfloor> = durationSeconds form - 30)"

section \<open>Concurrent invocations of the handler\<close>

text \<open>
  The route under the runtime, with the array of each invocation in an explicit heap.
  An address is an index into the heap. The runtime interleaves the invocations in
  flight at their \<open>await\<close>s; between two of them an invocation runs alone. The module has
  no mutable state of its own: \<open>payloadSchema\<close> is a constant.
\<close>

type_synonym heap = "js_value list list"

definition new_array :: "heap \<Rightarrow> nat \<times> heap" where
  "new_array h = (length h, h @ [[]])"

definition array_push :: "nat \<Rightarrow> js_value \<Rightarrow> heap \<Rightarrow> heap" where
  "array_push a v h = (if a < length h then h[a := push (h ! a) v] else h)"

definition array_read :: "nat \<Rightarrow> heap \<Rightarrow> js_value list" where
  "array_read a h = (if a < length h then h ! a else [])"

text \<open>
  The steps of a schedule. \<open>Start i request\<close>: invocation \<open>i\<close> of \<open>POST\<close> runs lines 17 to
  25, up to the \<open>await\<close> of the pipeline. \<open>OnStatus caller target v\<close>: the pipeline run that
  invocation \<open>caller\<close> started calls, with \<open>v\<close>, the \<open>onStatus\<close> closure that invocation
  \<open>target\<close> created. \<open>Settle i r\<close>: the promise that invocation \<open>i\<close> awaits rejects with a
  thrown value (\<open>Inl\<close>) or resolves with a result (\<open>Inr\<close>), and the invocation runs lines 27
  to 39.
\<close>

datatype step =
    Start nat request
  | OnStatus nat nat js_value
  | Settle nat "thrown + js_value"

text \<open>
  The heap, the address that the \<open>onStatus\<close> closure of each invocation captured
  (its \<open>statusUpdates\<close>), and what each invocation has returned or thrown
  (\<open>NoResponse\<close> while it awaits).
\<close>

record server =
  heap_of :: heap
  closure_of :: "nat \<rightharpoonup> nat"
  outcome_of :: "nat \<rightharpoonup> handler_outcome"

definition no_invocations :: server where
  "no_invocations = \<lparr>heap_of = [], closure_of = Map.empty, outcome_of = Map.empty\<rparr>"

definition settlement_of :: "thrown + js_value \<Rightarrow> settlement" where
  "settlement_of r = (case r of Inl error \<Rightarrow> Rejects error | Inr result \<Rightarrow> Resolves result)"

text \<open>Lines 27 to 39 on the array that the invocation reads from the heap.\<close>

definition respond :: "js_value list \<Rightarrow> settlement \<Rightarrow> handler_outcome" where
  "respond statusUpdates st =
     (case st of
        Resolves result \<Rightarrow>
          Responded (NextResponse_json
            (JObject [(ascii ''ok'', JBool True),
                      (ascii ''result'', result),
                      (ascii ''statusUpdates'', JArray statusUpdates)]) 200)
      | Rejects error \<Rightarrow>
          Responded (NextResponse_json
            (JObject [(ascii ''ok'', JBool False),
                      (ascii ''error'', JString (error_message error)),
                      (ascii ''statusUpdates'', JArray statusUpdates)]) 500)
      | NeverSettles \<Rightarrow> NoResponse)"

text \<open>
  \<open>Start\<close>: what \<open>request.json()\<close> or \<open>parse\<close> throws escapes and nothing is allocated;
  otherwise \<open>const statusUpdates = []\<close> allocates an array and the closure handed to the
  pipeline captures its address. \<open>OnStatus\<close>: the closure pushes into the array it
  captured, whoever calls it. \<open>Settle\<close>: an invocation that awaits builds its response
  from its array as it is then; a promise settles once.
\<close>

fun do_step :: "server \<Rightarrow> step \<Rightarrow> server" where
  "do_step s (Start i req) =
     (case request_json req of
        Inl e \<Rightarrow>
          s\<lparr>closure_of := (closure_of s)(i := None), outcome_of := (outcome_of s)(i \<mapsto> Threw e)\<rparr>
      | Inr body \<Rightarrow>
          (case payloadSchema body of
             Inl e \<Rightarrow>
               s\<lparr>closure_of := (closure_of s)(i := None),
                  outcome_of := (outcome_of s)(i \<mapsto> Threw e)\<rparr>
           | Inr parsed \<Rightarrow>
               (case new_array (heap_of s) of
                  (a, h) \<Rightarrow>
                    \<lparr>heap_of = h, closure_of = (closure_of s)(i \<mapsto> a),
                     outcome_of = (outcome_of s)(i \<mapsto> NoResponse)\<rparr>)))"
| "do_step s (OnStatus caller target v) =
     (case closure_of s target of
        None \<Rightarrow> s
      | Some a \<Rightarrow> s\<lparr>heap_of := array_push a v (heap_of s)\<rparr>)"
| "do_step s (Settle i r) =
     (case closure_of s i of
        None \<Rightarrow> s
      | Some a \<Rightarrow>
          if outcome_of s i = Some NoResponse
          then s\<lparr>outcome_of :=
                   (outcome_of s)(i \<mapsto> respond (array_read a (heap_of s)) (settlement_of r))\<rparr>
          else s)"

definition run_steps :: "step list \<Rightarrow> server" where
  "run_steps steps = foldl do_step no_invocations steps"

text \<open>The \<open>statusUpdates\<close> of invocation \<open>i\<close> as the heap holds it now.\<close>

definition statusUpdates_of :: "server \<Rightarrow> nat \<Rightarrow> js_value list option" where
  "statusUpdates_of s i =
     (case closure_of s i of
        None \<Rightarrow> None
      | Some a \<Rightarrow> Some (array_read a (heap_of s)))"

text \<open>
  Modelled from the spec: the pipeline, which is the module \<open>@/lib/pipeline\<close> that the
  route imports, keeps no state between runs and the status sink is unique per run: a
  run calls no \<open>onStatus\<close> but the one it was given.
\<close>

fun own_callback :: "step \<Rightarrow> bool" where
  "own_callback (Start i req) = True"
| "own_callback (OnStatus caller target v) = (caller = target)"
| "own_callback (Settle i r) = True"

definition own_callbacks_only :: "step list \<Rightarrow> bool" where
  "own_callbacks_only steps = list_all own_callback steps"

text \<open>The invocation that takes a step, and a schedule without the steps of invocation \<open>j\<close>.\<close>

fun step_of :: "step \<Rightarrow> nat" where
  "step_of (Start i req) = i"
| "step_of (OnStatus caller target v) = caller"
| "step_of (Settle i r) = i"

definition without :: "nat \<Rightarrow> step list \<Rightarrow> step list" where
  "without j steps = filter (\<lambda>st. step_of st \<noteq> j) steps"

text \<open>
  What one invocation did, read off the schedule with every other invocation ignored:
  the request it started with, the values its run reported, and how its promise settled.
\<close>

datatype view =
    NotStarted
  | Running request "js_value list"
  | Finished request "js_value list" settlement

fun view_step :: "nat \<Rightarrow> view \<Rightarrow> step \<Rightarrow> view" where
  "view_step i w (Start j req) = (if j = i then Running req [] else w)"
| "view_step i w (OnStatus caller target v) =
     (if caller = i
      then (case w of Running req events \<Rightarrow> Running req (push events v) | _ \<Rightarrow> w)
      else w)"
| "view_step i w (Settle j r) =
     (if j = i
      then (case w of Running req events \<Rightarrow> Finished req events (settlement_of r) | _ \<Rightarrow> w)
      else w)"

definition own_view :: "nat \<Rightarrow> step list \<Rightarrow> view" where
  "own_view i steps = foldl (view_step i) NotStarted steps"

text \<open>
  What \<open>POST\<close> answers to one invocation taken alone: the handler applied to the request
  of the invocation and to a pipeline that behaves as the run of the invocation did.
\<close>

definition alone :: "view \<Rightarrow> handler_outcome option" where
  "alone w =
     (case w of
        NotStarted \<Rightarrow> None
      | Running req events \<Rightarrow>
          Some (outcome (POST (\<lambda>parsed. \<lparr>emitted = events, settled = NeverSettles\<rparr>) req))
      | Finished req events st \<Rightarrow>
          Some (outcome (POST (\<lambda>parsed. \<lparr>emitted = events, settled = st\<rparr>) req)))"

section \<open>The orchestrator\<close>

text \<open>
  Modelled from the spec: the stages of the pipeline, which is the module
  \<open>@/lib/pipeline\<close> that the route imports. The four ordered production steps.
\<close>

datatype stage_id = Script | Prompt | Render | Publish

text \<open>
  Modelled from the spec: a \<open>StatusEvent\<close> has a stage and a free-text detail; of the
  detail the model keeps whether it announces the start of the stage or its completion.
\<close>

datatype progress = Starting | Completed

record StatusEvent =
  stage :: stage_id
  detail :: progress

text \<open>
  Modelled from the spec: a \<open>StageFailure\<close> carries the name of the failing stage and
  the underlying cause.
\<close>

record StageFailure =
  failed_stage :: stage_id
  cause :: thrown

text \<open>
  Modelled from the spec: the four stage adapters, each one operation from its input to
  its output or a failure; the renderer also takes the script, the publisher the brief.
\<close>

record adapters =
  scriptwriter :: "js_value \<Rightarrow> thrown + js_value"
  promptDesigner :: "js_value \<Rightarrow> thrown + js_value list"
  renderer :: "js_value list \<Rightarrow> js_value \<Rightarrow> thrown + js_value"
  publisher :: "js_value \<Rightarrow> js_value \<Rightarrow> thrown + js_value \<times> js_value"

text \<open>
  Modelled from the spec: the \<open>PipelineResult\<close>, the aggregate of the script, the visual
  prompts, the locator of the render, the public locator and the metadata.
\<close>

record PipelineResult =
  script :: js_value
  visualPrompts :: "js_value list"
  videoDownloadUrl :: js_value
  youtubeVideoUrl :: js_value
  metadata :: js_value

text \<open>
  Modelled from the spec: what a run does, in order: it pushes an event into the status
  sink, or it invokes the adapter of a stage.
\<close>

datatype action = Emit StatusEvent | Call stage_id

text \<open>
  Modelled from the spec: one stage of a run. The start event is emitted immediately
  before the adapter is invoked, the completion event immediately after it succeeds; a
  failing adapter gives the \<open>StageFailure\<close> of that stage and no completion event.
\<close>

definition run_stage :: "stage_id \<Rightarrow> thrown + 'a \<Rightarrow> action list \<times> (StageFailure + 'a)" where
  "run_stage s r =
     (case r of
        Inl c \<Rightarrow>
          ([Emit \<lparr>stage = s, detail = Starting\<rparr>, Call s],
           Inl \<lparr>failed_stage = s, cause = c\<rparr>)
      | Inr v \<Rightarrow>
          ([Emit \<lparr>stage = s, detail = Starting\<rparr>, Call s, Emit \<lparr>stage = s, detail = Completed\<rparr>],
           Inr v))"

text \<open>
  Modelled from the spec: strict sequencing. After a failure the remaining stages are
  not attempted and what was emitted stays.
\<close>

definition and_then ::
  "action list \<times> (StageFailure + 'a) \<Rightarrow> ('a \<Rightarrow> action list \<times> (StageFailure + 'b)) \<Rightarrow>
   action list \<times> (StageFailure + 'b)" where
  "and_then m f =
     (case m of
        (before, Inl failure) \<Rightarrow> (before, Inl failure)
      | (before, Inr v) \<Rightarrow> (case f v of (after, r) \<Rightarrow> (before @ after, r)))"

text \<open>
  Modelled from the spec: \<open>run(brief, statusSink)\<close>, Script, Prompt, Render, Publish in
  this order, each stage fed the output of the stages before it; the result is
  assembled when all four have succeeded.
\<close>

definition run :: "adapters \<Rightarrow> js_value \<Rightarrow> action list \<times> (StageFailure + PipelineResult)" where
  "run A brief =
     and_then (run_stage Script (scriptwriter A brief)) (\<lambda>the_script.
     and_then (run_stage Prompt (promptDesigner A the_script)) (\<lambda>prompts.
     and_then (run_stage Render (renderer A prompts the_script)) (\<lambda>render.
     and_then (run_stage Publish (publisher A render brief)) (\<lambda>published.
       ([], Inr \<lparr>script = the_script, visualPrompts = prompts, videoDownloadUrl = render,
                 youtubeVideoUrl = fst published, metadata = snd published\<rparr>)))))"

text \<open>Modelled from the spec: the events that the status sink holds after the actions.\<close>

fun sink :: "action list \<Rightarrow> StatusEvent list" where
  "sink [] = []"
| "sink (Emit e # as) = e # sink as"
| "sink (Call s # as) = sink as"

section \<open>Vocabulary of the properties\<close>

text \<open>A schema accepts a value when parsing it does not throw.\<close>

definition accepts :: "zod_schema \<Rightarrow> js_value \<Rightarrow> bool" where
  "accepts sch v = (case sch v of Inl e \<Rightarrow> False | Inr out \<Rightarrow> True)"

definition text_of_length_at_least :: "nat \<Rightarrow> js_value \<Rightarrow> bool" where
  "text_of_length_at_least n v = (case v of JString s \<Rightarrow> n \<le> length s | _ \<Rightarrow> False)"

definition absent_or_text :: "js_value \<Rightarrow> bool" where
  "absent_or_text v = (case v of JUndefined \<Rightarrow> True | JString s \<Rightarrow> True | _ \<Rightarrow> False)"

definition absent_or_keywords :: "js_value \<Rightarrow> bool" where
  "absent_or_keywords v =
     (case v of
        JUndefined \<Rightarrow> True
      | JArray xs \<Rightarrow> list_all (text_of_length_at_least 1) xs
      | _ \<Rightarrow> False)"

definition absent_or_duration :: "js_value \<Rightarrow> bool" where
  "absent_or_duration v =
     (case v of
        JUndefined \<Rightarrow> True
      | JNumber (Finite r) \<Rightarrow> of_int \<lfloor>r\<rfloor> = r \<and> 30 \<le> r \<and> r \<le> 300
      | _ \<Rightarrow> False)"

text \<open>Setting and deleting a property of an object.\<close>

definition delete_prop :: "(jstring \<times> js_value) list \<Rightarrow> jstring \<Rightarrow> (jstring \<times> js_value) list" where
  "delete_prop data key = filter (\<lambda>kv. fst kv \<noteq> key) data"

definition set_prop ::
  "(jstring \<times> js_value) list \<Rightarrow> jstring \<Rightarrow> js_value \<Rightarrow> (jstring \<times> js_value) list" where
  "set_prop data key v = (key, v) # delete_prop data key"

definition keys_of :: "js_value \<Rightarrow> jstring set" where
  "keys_of v = (case v of JObject data \<Rightarrow> fst ` set data | _ \<Rightarrow> {})"

definition is_4xx :: "handler_outcome \<Rightarrow> bool" where
  "is_4xx out =
     (case out of
        Responded r \<Rightarrow> 400 \<le> status_code r \<and> status_code r < 500
      | _ \<Rightarrow> False)"

definition is_2xx :: "nat \<Rightarrow> bool" where
  "is_2xx s = (200 \<le> s \<and> s < 300)"

section \<open>Inputs on which the properties are evaluated\<close>

text \<open>
  Request bodies: a valid brief, and variants of it with a duration of 29, without the
  topic, with a topic of two characters, and with a field that the schema does not name.
\<close>

definition valid_data :: "(jstring \<times> js_value) list" where
  "valid_data =
     [(ascii ''topic'', JString (ascii ''AI automation for video creators'')),
      (ascii ''targetAudience'', JString (ascii ''Busy YouTubers'')),
      (ascii ''contentGoals'', JString (ascii ''Educate on automation'')),
      (ascii ''durationSeconds'', JNumber (Finite 120))]"

definition duration_29_data :: "(jstring \<times> js_value) list" where
  "duration_29_data =
     [(ascii ''topic'', JString (ascii ''AI automation for video creators'')),
      (ascii ''targetAudience'', JString (ascii ''Busy YouTubers'')),
      (ascii ''contentGoals'', JString (ascii ''Educate on automation'')),
      (ascii ''durationSeconds'', JNumber (Finite 29))]"

definition missing_topic_data :: "(jstring \<times> js_value) list" where
  "missing_topic_data =
     [(ascii ''targetAudience'', JString (ascii ''Busy YouTubers'')),
      (ascii ''contentGoals'', JString (ascii ''Educate on automation''))]"

definition short_topic_data :: "(jstring \<times> js_value) list" where
  "short_topic_data =
     [(ascii ''topic'', JString (ascii ''AI'')),
      (ascii ''targetAudience'', JString (ascii ''Busy YouTubers'')),
      (ascii ''contentGoals'', JString (ascii ''Educate on automation''))]"

definition extra_field_data :: "(jstring \<times> js_value) list" where
  "extra_field_data =
     [(ascii ''topic'', JString (ascii ''AI automation for video creators'')),
      (ascii ''isAdmin'', JBool True),
      (ascii ''targetAudience'', JString (ascii ''Busy YouTubers'')),
      (ascii ''contentGoals'', JString (ascii ''Educate on automation''))]"

text \<open>
  Runs of the pipeline: one that reports twice and resolves, one that reports once and
  rejects with a given value; two rejections with the same message that differ in the
  stage and in the cause.
\<close>

definition script_started :: js_value where
  "script_started =
     JObject [(ascii ''stage'', JString (ascii ''script'')),
              (ascii ''detail'', JString (ascii ''Writing the script''))]"

definition script_done :: js_value where
  "script_done =
     JObject [(ascii ''stage'', JString (ascii ''script'')),
              (ascii ''detail'', JString (ascii ''Script ready''))]"

definition some_result :: js_value where
  "some_result = JObject [(ascii ''youtubeVideoUrl'', JString (ascii ''https://youtu.be/x''))]"

definition succeeding_pipeline :: "js_value \<Rightarrow> pipeline_run" where
  "succeeding_pipeline parsed = \<lparr>emitted = [script_started, script_done], settled = Resolves some_result\<rparr>"

definition failing_pipeline :: "thrown \<Rightarrow> js_value \<Rightarrow> pipeline_run" where
  "failing_pipeline error parsed = \<lparr>emitted = [script_started], settled = Rejects error\<rparr>"

definition render_timeout :: thrown where
  "render_timeout =
     ErrorInstance (ascii ''Pipeline stage failed'')
       [(ascii ''stage'', JString (ascii ''Render'')), (ascii ''cause'', JString (ascii ''timeout''))]"

definition publish_quota :: thrown where
  "publish_quota =
     ErrorInstance (ascii ''Pipeline stage failed'')
       [(ascii ''stage'', JString (ascii ''Publish'')), (ascii ''cause'', JString (ascii ''quota''))]"

text \<open>
  A form, stub adapters for the four stages, and a schedule of two invocations, the
  first of which resolves after two reports and the second rejects after one.
\<close>

definition short_topic_form :: FormState where
  "short_topic_form = initialForm\<lparr>topic := ascii ''AI''\<rparr>"

definition stub_adapters :: adapters where
  "stub_adapters =
     \<lparr>scriptwriter = (\<lambda>brief. Inr (JString (ascii ''script''))),
      promptDesigner = (\<lambda>s. Inr [JString (ascii ''scene 1'')]),
      renderer = (\<lambda>prompts s. Inr (JString (ascii ''https://cdn/render.mp4''))),
      publisher = (\<lambda>render brief. Inr (JString (ascii ''https://youtu.be/x''), JArray []))\<rparr>"

definition valid_request :: request where
  "valid_request = Request (Inr (JObject valid_data))"

definition two_runs :: "step list" where
  "two_runs =
     [Start 0 valid_request, OnStatus 0 0 script_started, Start 1 valid_request,
      OnStatus 1 1 script_started, OnStatus 0 0 script_done,
      Settle 1 (Inl render_timeout), Settle 0 (Inr some_result)]"

text \<open>A schedule in which the run of invocation 1 calls the closure of invocation 0.\<close>

definition foreign_call :: "step list" where
  "foreign_call =
     [Start 0 valid_request, Start 1 valid_request, OnStatus 1 0 script_done,
      Settle 0 (Inr some_result)]"

text \<open>
  Two pipelines that agree on every object without the key \<open>isAdmin\<close> and differ on the
  others: one resolves with the brief it receives, the other rejects a brief that has
  the key.
\<close>

definition echo_pipeline :: "js_value \<Rightarrow> pipeline_run" where
  "echo_pipeline brief = \<lparr>emitted = [], settled = Resolves brief\<rparr>"

definition admin_pipeline :: "js_value \<Rightarrow> pipeline_run" where
  "admin_pipeline brief =
     (case brief of
        JObject data \<Rightarrow>
          if has_key data (ascii ''isAdmin'')
          then \<lparr>emitted = [], settled = Rejects (NonError brief)\<rparr>
          else echo_pipeline brief
      | _ \<Rightarrow> echo_pipeline brief)"

section \<open>Invariants of the heap\<close>

text \<open>
  Every closure holds an allocated address, and no two invocations hold the same one.
\<close>

definition closures_separate :: "server \<Rightarrow> bool" where
  "closures_separate s =
     ((\<forall>i a. closure_of s i = Some a \<longrightarrow> a < length (heap_of s)) \<and>
      (\<forall>i j a. closure_of s i = Some a \<longrightarrow> closure_of s j = Some a \<longrightarrow> i = j))"

text \<open>The request as \<open>POST\<close> validates it: lines 17 and 18.\<close>

definition validated :: "request \<Rightarrow> js_exception + js_value" where
  "validated req =
     (case request_json req of Inl e \<Rightarrow> Inl e | Inr body \<Rightarrow> payloadSchema body)"

text \<open>The state of the server agrees with the view of invocation \<open>i\<close>.\<close>

definition view_matches :: "server \<Rightarrow> nat \<Rightarrow> view \<Rightarrow> bool" where
  "view_matches s i w =
     (case w of
        NotStarted \<Rightarrow> closure_of s i = None \<and> outcome_of s i = None
      | Running req events \<Rightarrow>
          (case validated req of
             Inl e \<Rightarrow> closure_of s i = None \<and> outcome_of s i = Some (Threw e)
           | Inr parsed \<Rightarrow>
               statusUpdates_of s i = Some events \<and> outcome_of s i = Some NoResponse)
      | Finished req events st \<Rightarrow>
          (case validated req of
             Inl e \<Rightarrow> closure_of s i = None \<and> outcome_of s i = Some (Threw e)
           | Inr parsed \<Rightarrow>
               closure_of s i \<noteq> None \<and> st \<noteq> NeverSettles \<and>
               outcome_of s i = Some (respond events st)))"

section \<open>Facts about the schema and the handler\<close>

lemma Number_isInteger_Finite: "Number_isInteger (Finite r) = (r \<in> \<int>)"
  by (auto simp: Number_isInteger_def Ints_def)

lemma Number_isInteger_infinite:
  "Number_isInteger PosInfinity = False" "Number_isInteger NegInfinity = False"
  by (simp_all add: Number_isInteger_def)

lemma absent_or_duration_simps:
  "absent_or_duration JUndefined"
  "absent_or_duration (JNumber (Finite r)) = (r \<in> \<int> \<and> 30 \<le> r \<and> r \<le> 300)"
  "\<not> absent_or_duration (JNumber PosInfinity)"
  "\<not> absent_or_duration (JNumber NegInfinity)"
  "\<not> absent_or_duration JNull"
  "\<not> absent_or_duration (JBool b)"
  "\<not> absent_or_duration (JString s)"
  "\<not> absent_or_duration (JArray xs)"
  "\<not> absent_or_duration (JObject data)"
  by (auto simp: absent_or_duration_def Ints_def)

lemma accepts_z_string: "accepts (z_string [StrMin n]) v = text_of_length_at_least n v"
  by (simp add: accepts_def z_string_def text_of_length_at_least_def split: js_value.splits)

lemma accepts_optional_string: "accepts (z_optional (z_string [])) v = absent_or_text v"
  by (simp add: accepts_def z_optional_def z_string_def absent_or_text_def split: js_value.splits)

lemma parse_items_accepts:
  "(case parse_items f xs of Inl e \<Rightarrow> False | Inr ys \<Rightarrow> True) = list_all (accepts f) xs"
  by (induction xs) (auto simp: accepts_def split: sum.splits)

lemma accepts_z_array:
  "accepts (z_array f) v = (case v of JArray xs \<Rightarrow> list_all (accepts f) xs | _ \<Rightarrow> False)"
proof (cases v)
  case (JArray xs)
  then show ?thesis
    using parse_items_accepts [of f xs]
    by (simp add: accepts_def z_array_def split: sum.splits)
qed (simp_all add: accepts_def z_array_def)

lemma accepts_optional_keywords:
  "accepts (z_optional (z_array (z_string [StrMin 1]))) v = absent_or_keywords v"
proof -
  have eq: "accepts (z_string [StrMin 1]) = text_of_length_at_least 1"
    by (rule ext) (rule accepts_z_string)
  have "accepts (z_optional (z_array (z_string [StrMin 1]))) v =
          (if v = JUndefined then True else accepts (z_array (z_string [StrMin 1])) v)"
    by (simp add: accepts_def z_optional_def)
  also have "\<dots> = absent_or_keywords v"
    unfolding accepts_z_array eq absent_or_keywords_def
    by (cases v) simp_all
  finally show ?thesis .
qed

lemma accepts_optional_duration:
  "accepts (z_optional (z_number [NumInt, NumMin 30, NumMax 300])) v = absent_or_duration v"
proof (cases v)
  case (JNumber x)
  then show ?thesis
    by (cases x)
       (simp_all add: accepts_def z_optional_def z_number_def absent_or_duration_simps
          Number_isInteger_Finite Number_isInteger_infinite)
qed (simp_all add: accepts_def z_optional_def z_number_def absent_or_duration_simps)

lemma parse_shape_accepts:
  "(case parse_shape shape data of Inl e \<Rightarrow> False | Inr out \<Rightarrow> True) =
     list_all (\<lambda>(k, f). accepts f (get_prop data k)) shape"
  by (induction shape) (auto simp: accepts_def split: sum.splits)

lemma accepts_z_object:
  "accepts (z_object shape) v =
     (case v of JObject data \<Rightarrow> list_all (\<lambda>(k, f). accepts f (get_prop data k)) shape | _ \<Rightarrow> False)"
proof (cases v)
  case (JObject data)
  then show ?thesis
    using parse_shape_accepts [of shape data]
    by (simp add: accepts_def z_object_def split: sum.splits)
qed (simp_all add: accepts_def z_object_def)

lemma payloadSchema_accepts_iff:
  "accepts payloadSchema (JObject data) =
     (text_of_length_at_least 3 (get_prop data (ascii ''topic'')) \<and>
      text_of_length_at_least 3 (get_prop data (ascii ''targetAudience'')) \<and>
      text_of_length_at_least 3 (get_prop data (ascii ''contentGoals'')) \<and>
      absent_or_text (get_prop data (ascii ''tone'')) \<and>
      absent_or_keywords (get_prop data (ascii ''keywords'')) \<and>
      absent_or_text (get_prop data (ascii ''callToAction'')) \<and>
      absent_or_duration (get_prop data (ascii ''durationSeconds'')))"
  unfolding payloadSchema_def payloadShape_def accepts_z_object
  by (simp only: js_value.case list.pred_inject prod.case accepts_z_string
      accepts_optional_string accepts_optional_keywords accepts_optional_duration simp_thms)

lemma z_string_error: "z_string cs v = Inl e \<Longrightarrow> e = ZodError"
  by (auto simp: z_string_def split: js_value.splits if_splits)

lemma z_number_error: "z_number cs v = Inl e \<Longrightarrow> e = ZodError"
  by (auto simp: z_number_def split: js_value.splits if_splits)

lemma parse_items_error:
  assumes "\<And>x e. f x = Inl e \<Longrightarrow> e = ZodError"
  shows "parse_items f xs = Inl e \<Longrightarrow> e = ZodError"
  using assms by (induction xs) (auto split: sum.splits)

lemma z_array_error:
  assumes "\<And>x e. f x = Inl e \<Longrightarrow> e = ZodError" and "z_array f v = Inl e"
  shows "e = ZodError"
proof (cases v)
  case (JArray xs)
  show ?thesis
  proof (cases "parse_items f xs")
    case (Inl e')
    then have "e' = ZodError" using assms(1) parse_items_error [of f xs e'] by blast
    with Inl JArray assms(2) show ?thesis by (simp add: z_array_def)
  next
    case (Inr ys)
    with JArray assms(2) show ?thesis by (simp add: z_array_def)
  qed
qed (use assms(2) in \<open>simp_all add: z_array_def\<close>)

lemma z_optional_error:
  assumes "\<And>x e. f x = Inl e \<Longrightarrow> e = ZodError" and "z_optional f v = Inl e"
  shows "e = ZodError"
  using assms by (auto simp: z_optional_def split: if_splits)

lemma parse_shape_error:
  assumes "\<And>k f x e. (k, f) \<in> set shape \<Longrightarrow> f x = Inl e \<Longrightarrow> e = ZodError"
  shows "parse_shape shape data = Inl e \<Longrightarrow> e = ZodError"
  using assms
proof (induction shape)
  case Nil
  then show ?case by simp
next
  case (Cons kf shape)
  obtain k f where kf: "kf = (k, f)" by (cases kf)
  show ?case
  proof (cases "f (get_prop data k)")
    case (Inl e')
    with Cons.prems(1) kf have "e = e'" by simp
    moreover have "e' = ZodError" using Cons.prems(2) [of k f] kf Inl by simp
    ultimately show ?thesis by simp
  next
    case (Inr v)
    with Cons.prems(1) kf have "parse_shape shape data = Inl e"
      by (simp split: sum.splits)
    moreover have "\<And>k f x e. (k, f) \<in> set shape \<Longrightarrow> f x = Inl e \<Longrightarrow> e = ZodError"
      using Cons.prems(2) by auto
    ultimately show ?thesis using Cons.IH by blast
  qed
qed

lemma payloadShape_error:
  assumes "(k, f) \<in> set payloadShape" and "f x = Inl e"
  shows "e = ZodError"
proof -
  have s: "\<And>cs x e. z_string cs x = Inl e \<Longrightarrow> e = ZodError"
    by (rule z_string_error)
  have os: "\<And>cs x e. z_optional (z_string cs) x = Inl e \<Longrightarrow> e = ZodError"
    using z_optional_error s by blast
  have a: "\<And>cs x e. z_array (z_string cs) x = Inl e \<Longrightarrow> e = ZodError"
    using z_array_error s by blast
  have oa: "\<And>cs x e. z_optional (z_array (z_string cs)) x = Inl e \<Longrightarrow> e = ZodError"
    using z_optional_error a by blast
  have n: "\<And>cs x e. z_optional (z_number cs) x = Inl e \<Longrightarrow> e = ZodError"
    using z_optional_error z_number_error by blast
  from assms(1) consider "f = z_string [StrMin 3]" | "f = z_optional (z_string [])"
    | "f = z_optional (z_array (z_string [StrMin 1]))"
    | "f = z_optional (z_number [NumInt, NumMin 30, NumMax 300])"
    unfolding payloadShape_def by auto
  then show ?thesis
    using assms(2) s os oa n by cases blast+
qed

lemma payloadSchema_error:
  assumes "payloadSchema v = Inl e"
  shows "e = ZodError"
proof (cases v)
  case (JObject data)
  show ?thesis
  proof (cases "parse_shape payloadShape data")
    case (Inl e')
    then have "e' = ZodError"
      using parse_shape_error [of payloadShape data e'] payloadShape_error by blast
    with Inl JObject assms show ?thesis by (simp add: payloadSchema_def z_object_def)
  next
    case (Inr out)
    with JObject assms show ?thesis by (simp add: payloadSchema_def z_object_def)
  qed
qed (use assms in \<open>simp_all add: payloadSchema_def z_object_def\<close>)

lemma foldl_push: "foldl push acc xs = acc @ xs"
  by (induction xs arbitrary: acc) (simp_all add: push_def)

lemma POST_invalid:
  "payloadSchema b = Inl e \<Longrightarrow> POST p (Request (Inr b)) = \<lparr>outcome = Threw e, pipeline_calls = []\<rparr>"
  by (simp add: POST_def)

lemma POST_resolves:
  "payloadSchema b = Inr parsed \<Longrightarrow> settled (p parsed) = Resolves r \<Longrightarrow>
   POST p (Request (Inr b)) =
     \<lparr>outcome = Responded \<lparr>status_code = 200, json_body =
          JObject [(ascii ''ok'', JBool True), (ascii ''result'', r),
                   (ascii ''statusUpdates'', JArray (emitted (p parsed)))]\<rparr>,
      pipeline_calls = [parsed]\<rparr>"
  by (simp add: POST_def Let_def foldl_push NextResponse_json_def)

lemma POST_rejects:
  "payloadSchema b = Inr parsed \<Longrightarrow> settled (p parsed) = Rejects err \<Longrightarrow>
   POST p (Request (Inr b)) =
     \<lparr>outcome = Responded \<lparr>status_code = 500, json_body =
          JObject [(ascii ''ok'', JBool False), (ascii ''error'', JString (error_message err)),
                   (ascii ''statusUpdates'', JArray (emitted (p parsed)))]\<rparr>,
      pipeline_calls = [parsed]\<rparr>"
  by (simp add: POST_def Let_def foldl_push NextResponse_json_def)

lemmas eval_schema = payloadSchema_def payloadShape_def z_object_def z_string_def z_optional_def
  z_array_def z_number_def get_prop_def has_key_def ascii_def accepts_def
  Number_isInteger_Finite Number_isInteger_infinite

lemma valid_data_parsed: "payloadSchema (JObject valid_data) = Inr (JObject valid_data)"
  by (simp add: eval_schema valid_data_def)

lemma not_accepts_Inl: "\<not> accepts sch v \<Longrightarrow> \<exists>e. sch v = Inl e"
  by (cases "sch v") (simp_all add: accepts_def)

lemma parse_shape_keys:
  "parse_shape shape data = Inr out \<Longrightarrow> fst ` set out \<subseteq> fst ` set shape"
proof (induction shape arbitrary: out)
  case Nil
  then show ?case by simp
next
  case (Cons kf shape)
  obtain k f where kf: "kf = (k, f)" by (cases kf)
  from Cons.prems kf obtain v rest where
    rest: "parse_shape shape data = Inr rest" and
    out: "out = (if v \<noteq> JUndefined \<or> has_key data k then (k, v) # rest else rest)"
    by (auto split: sum.splits)
  from Cons.IH [OF rest] out kf show ?case by auto
qed

lemma payloadSchema_keys:
  assumes "payloadSchema b = Inr parsed"
  shows "\<exists>out. parsed = JObject out \<and>
           fst ` set out \<subseteq>
             {ascii ''topic'', ascii ''targetAudience'', ascii ''contentGoals'', ascii ''tone'',
              ascii ''keywords'', ascii ''callToAction'', ascii ''durationSeconds''}"
proof (cases b)
  case (JObject data)
  with assms obtain out where out: "parse_shape payloadShape data = Inr out" "parsed = JObject out"
    by (auto simp: payloadSchema_def z_object_def split: sum.splits)
  have "fst ` set payloadShape =
          {ascii ''topic'', ascii ''targetAudience'', ascii ''contentGoals'', ascii ''tone'',
           ascii ''keywords'', ascii ''callToAction'', ascii ''durationSeconds''}"
    by (simp add: payloadShape_def)
  with parse_shape_keys [OF out(1)] out(2) show ?thesis by simp
qed (use assms in \<open>simp_all add: payloadSchema_def z_object_def\<close>)

lemma map_of_delete_prop:
  "map_of (delete_prop data k) k' = (if k' = k then None else map_of data k')"
  by (induction data) (auto simp: delete_prop_def)

lemma get_prop_delete_prop:
  "get_prop (delete_prop data k) k' = (if k' = k then JUndefined else get_prop data k')"
  by (simp add: get_prop_def map_of_delete_prop)

lemma get_prop_set_prop:
  "get_prop (set_prop data k v) k' = (if k' = k then v else get_prop data k')"
  by (simp add: get_prop_def set_prop_def map_of_delete_prop)

lemma duration_key_distinct:
  "ascii ''topic'' \<noteq> ascii ''durationSeconds''"
  "ascii ''targetAudience'' \<noteq> ascii ''durationSeconds''"
  "ascii ''contentGoals'' \<noteq> ascii ''durationSeconds''"
  "ascii ''tone'' \<noteq> ascii ''durationSeconds''"
  "ascii ''keywords'' \<noteq> ascii ''durationSeconds''"
  "ascii ''callToAction'' \<noteq> ascii ''durationSeconds''"
  by (simp_all add: ascii_def)

lemma keyword_list_accepted:
  "absent_or_keywords (JArray (map JString (keyword_list s)))"
  by (simp add: absent_or_keywords_def keyword_list_def list_all_iff text_of_length_at_least_def
        Suc_le_eq)

lemma step_from_minimum: "(of_int \<lfloor>d - 30\<rfloor> = d - 30) = (d \<in> \<int>)" for d :: rat
  by (auto simp: Ints_def)

section \<open>Facts about the heap\<close>

lemma closures_separate_init: "closures_separate no_invocations"
  by (simp add: closures_separate_def no_invocations_def)

lemma validated_Request: "validated (Request (Inr b)) = payloadSchema b"
  by (simp add: validated_def)

lemma do_step_Start_invalid:
  "validated req = Inl e \<Longrightarrow>
   do_step s (Start i req) =
     s\<lparr>closure_of := (closure_of s)(i := None), outcome_of := (outcome_of s)(i \<mapsto> Threw e)\<rparr>"
  by (auto simp: validated_def split: sum.splits)

lemma do_step_Start_valid:
  "validated req = Inr parsed \<Longrightarrow>
   do_step s (Start i req) =
     \<lparr>heap_of = heap_of s @ [[]], closure_of = (closure_of s)(i \<mapsto> length (heap_of s)),
      outcome_of = (outcome_of s)(i \<mapsto> NoResponse)\<rparr>"
  by (auto simp: validated_def new_array_def split: sum.splits)

lemma POST_outcome_invalid: "validated req = Inl e \<Longrightarrow> outcome (POST p req) = Threw e"
  by (auto simp: validated_def POST_def split: sum.splits)

lemma POST_outcome_valid:
  "validated req = Inr parsed \<Longrightarrow>
   outcome (POST p req) = respond (emitted (p parsed)) (settled (p parsed))"
  by (auto simp: validated_def POST_def Let_def foldl_push respond_def split: sum.splits)

lemma closures_separate_step:
  assumes "closures_separate s"
  shows "closures_separate (do_step s st)"
proof (cases st)
  case (Start i req)
  show ?thesis
  proof (cases "validated req")
    case (Inl e)
    have eq: "do_step s st =
        s\<lparr>closure_of := (closure_of s)(i := None), outcome_of := (outcome_of s)(i \<mapsto> Threw e)\<rparr>"
      unfolding Start by (rule do_step_Start_invalid [OF Inl])
    from assms show ?thesis
      unfolding eq by (auto simp: closures_separate_def split: if_splits)
  next
    case (Inr parsed)
    have eq: "do_step s st =
        \<lparr>heap_of = heap_of s @ [[]], closure_of = (closure_of s)(i \<mapsto> length (heap_of s)),
         outcome_of = (outcome_of s)(i \<mapsto> NoResponse)\<rparr>"
      unfolding Start by (rule do_step_Start_valid [OF Inr])
    have "\<And>k a. closure_of s k = Some a \<Longrightarrow> a \<noteq> length (heap_of s)"
      using assms by (fastforce simp: closures_separate_def)
    with assms show ?thesis
      unfolding eq by (auto simp: closures_separate_def less_Suc_eq split: if_splits)
  qed
next
  case (OnStatus caller target v)
  with assms show ?thesis
    by (cases "closure_of s target") (auto simp: closures_separate_def array_push_def)
next
  case (Settle i r)
  with assms show ?thesis
    by (cases "closure_of s i") (auto simp: closures_separate_def)
qed

lemma closures_separate_foldl:
  "closures_separate s \<Longrightarrow> closures_separate (foldl do_step s steps)"
  by (induction steps arbitrary: s) (simp_all add: closures_separate_step)

lemma closures_separate_run_steps: "closures_separate (run_steps steps)"
  by (simp add: run_steps_def closures_separate_foldl closures_separate_init)

text \<open>A step of another invocation leaves the array and the outcome of this one alone.\<close>

lemma other_step_unseen:
  assumes sep: "closures_separate s" and own: "own_callback st" and other: "step_of st \<noteq> i"
  shows "closure_of (do_step s st) i = closure_of s i \<and>
         outcome_of (do_step s st) i = outcome_of s i \<and>
         statusUpdates_of (do_step s st) i = statusUpdates_of s i"
proof (cases st)
  case (Start j req)
  with other have ji: "j \<noteq> i" by simp
  show ?thesis
  proof (cases "validated req")
    case (Inl e)
    have eq: "do_step s st =
        s\<lparr>closure_of := (closure_of s)(j := None), outcome_of := (outcome_of s)(j \<mapsto> Threw e)\<rparr>"
      unfolding Start by (rule do_step_Start_invalid [OF Inl])
    from ji show ?thesis
      unfolding eq by (simp add: statusUpdates_of_def split: option.splits)
  next
    case (Inr parsed)
    have eq: "do_step s st =
        \<lparr>heap_of = heap_of s @ [[]], closure_of = (closure_of s)(j \<mapsto> length (heap_of s)),
         outcome_of = (outcome_of s)(j \<mapsto> NoResponse)\<rparr>"
      unfolding Start by (rule do_step_Start_valid [OF Inr])
    show ?thesis
    proof (cases "closure_of s i")
      case None
      with ji show ?thesis
        unfolding eq by (simp add: statusUpdates_of_def)
    next
      case (Some a)
      then have "a < length (heap_of s)"
        using sep by (simp add: closures_separate_def)
      with ji Some show ?thesis
        unfolding eq by (simp add: statusUpdates_of_def array_read_def nth_append)
    qed
  qed
next
  case (OnStatus caller target v)
  with own other have ti: "target \<noteq> i" by simp
  show ?thesis
  proof (cases "closure_of s target")
    case None
    with OnStatus show ?thesis by simp
  next
    case (Some a)
    show ?thesis
    proof (cases "closure_of s i")
      case None
      with OnStatus Some show ?thesis by (simp add: statusUpdates_of_def)
    next
      case other_closure: (Some b)
      have "b \<noteq> a"
      proof
        assume "b = a"
        with sep Some other_closure have "i = target"
          unfolding closures_separate_def by blast
        with ti show False by simp
      qed
      with OnStatus Some other_closure show ?thesis
        by (simp add: statusUpdates_of_def array_push_def array_read_def)
    qed
  qed
next
  case (Settle j r)
  with other have "j \<noteq> i" by simp
  with Settle show ?thesis
    by (cases "closure_of s j") (simp_all add: statusUpdates_of_def split: option.splits)
qed

lemma view_matches_cong:
  assumes "closure_of s' i = closure_of s i" and "outcome_of s' i = outcome_of s i"
    and "statusUpdates_of s' i = statusUpdates_of s i"
  shows "view_matches s' i w = view_matches s i w"
proof (cases w)
  case NotStarted
  with assms show ?thesis by (simp add: view_matches_def)
next
  case (Running req events)
  with assms show ?thesis
    by (cases "validated req") (simp_all add: view_matches_def)
next
  case (Finished req events st)
  with assms show ?thesis
    by (cases "validated req") (simp_all add: view_matches_def)
qed

lemma other_step_view: "step_of st \<noteq> i \<Longrightarrow> view_step i w st = w"
  by (cases st) simp_all

lemma settlement_of_settles: "settlement_of r \<noteq> NeverSettles"
  by (cases r) (simp_all add: settlement_of_def)

lemma respond_not_pending: "st \<noteq> NeverSettles \<Longrightarrow> respond events st \<noteq> NoResponse"
  by (cases st) (simp_all add: respond_def)

lemma own_step_matches:
  assumes sep: "closures_separate s" and own: "own_callback st" and mine: "step_of st = i"
    and m: "view_matches s i w"
  shows "view_matches (do_step s st) i (view_step i w st)"
proof (cases st)
  case (Start j req)
  with mine have j: "j = i" by simp
  show ?thesis
  proof (cases "validated req")
    case (Inl e)
    have eq: "do_step s st =
        s\<lparr>closure_of := (closure_of s)(i := None), outcome_of := (outcome_of s)(i \<mapsto> Threw e)\<rparr>"
      unfolding Start j by (rule do_step_Start_invalid [OF Inl])
    have "view_step i w st = Running req []"
      using Start j by simp
    with Inl show ?thesis
      unfolding eq by (simp add: view_matches_def)
  next
    case (Inr parsed)
    have eq: "do_step s st =
        \<lparr>heap_of = heap_of s @ [[]], closure_of = (closure_of s)(i \<mapsto> length (heap_of s)),
         outcome_of = (outcome_of s)(i \<mapsto> NoResponse)\<rparr>"
      unfolding Start j by (rule do_step_Start_valid [OF Inr])
    have "view_step i w st = Running req []"
      using Start j by simp
    with Inr show ?thesis
      unfolding eq by (simp add: view_matches_def statusUpdates_of_def array_read_def)
  qed
next
  case (OnStatus caller target v)
  with own mine have ct: "caller = i" "target = i" by simp_all
  show ?thesis
  proof (cases w)
    case NotStarted
    with m OnStatus ct show ?thesis by (simp add: view_matches_def)
  next
    case (Running req events)
    show ?thesis
    proof (cases "validated req")
      case (Inl e)
      with m Running OnStatus ct show ?thesis by (simp add: view_matches_def)
    next
      case (Inr parsed)
      with m Running obtain a where
        a: "closure_of s i = Some a" "array_read a (heap_of s) = events"
        and out: "outcome_of s i = Some NoResponse"
        by (auto simp: view_matches_def statusUpdates_of_def split: option.splits)
      from a(1) sep have "a < length (heap_of s)"
        by (simp add: closures_separate_def)
      with a out Running Inr OnStatus ct show ?thesis
        by (simp add: view_matches_def statusUpdates_of_def array_read_def array_push_def)
    qed
  next
    case (Finished req events st')
    show ?thesis
    proof (cases "closure_of s i")
      case None
      with m Finished OnStatus ct show ?thesis by simp
    next
      case (Some a)
      with m Finished OnStatus ct show ?thesis
        by (simp add: view_matches_def split: sum.splits)
    qed
  qed
next
  case (Settle j r)
  with mine have j: "j = i" by simp
  show ?thesis
  proof (cases w)
    case NotStarted
    with m Settle j show ?thesis by (simp add: view_matches_def)
  next
    case (Running req events)
    show ?thesis
    proof (cases "validated req")
      case (Inl e)
      with m Running Settle j show ?thesis by (simp add: view_matches_def)
    next
      case (Inr parsed)
      with m Running obtain a where
        a: "closure_of s i = Some a" "array_read a (heap_of s) = events"
        and out: "outcome_of s i = Some NoResponse"
        by (auto simp: view_matches_def statusUpdates_of_def split: option.splits)
      with Running Inr Settle j show ?thesis
        by (simp add: view_matches_def settlement_of_settles)
    qed
  next
    case (Finished req events st')
    show ?thesis
    proof (cases "validated req")
      case (Inl e)
      with m Finished Settle j show ?thesis by (simp add: view_matches_def)
    next
      case (Inr parsed)
      with m Finished have
        c: "closure_of s i \<noteq> None" and st': "st' \<noteq> NeverSettles"
        and out: "outcome_of s i = Some (respond events st')"
        by (simp_all add: view_matches_def)
      from st' have "respond events st' \<noteq> NoResponse" by (rule respond_not_pending)
      with out have "outcome_of s i \<noteq> Some NoResponse" by simp
      then have "do_step s st = s"
        using Settle j by (cases "closure_of s i") simp_all
      moreover have "view_step i w st = w"
        using Finished Settle j by simp
      ultimately show ?thesis using m by simp
    qed
  qed
qed

lemma view_matches_step:
  assumes "closures_separate s" and "own_callback st" and "view_matches s i w"
  shows "view_matches (do_step s st) i (view_step i w st)"
proof (cases "step_of st = i")
  case True
  with assms show ?thesis by (simp add: own_step_matches)
next
  case False
  with assms other_step_unseen [of s st i] view_matches_cong [of "do_step s st" i s w]
  show ?thesis by (simp add: other_step_view)
qed

lemma view_matches_foldl:
  "closures_separate s \<Longrightarrow> own_callbacks_only steps \<Longrightarrow> view_matches s i w \<Longrightarrow>
   view_matches (foldl do_step s steps) i (foldl (view_step i) w steps)"
proof (induction steps arbitrary: s w)
  case Nil
  then show ?case by simp
next
  case (Cons st steps)
  from Cons.prems(2) have st: "own_callback st" and rest: "own_callbacks_only steps"
    by (simp_all add: own_callbacks_only_def)
  from Cons.prems(1) have "closures_separate (do_step s st)"
    by (rule closures_separate_step)
  moreover from Cons.prems(1) st Cons.prems(3)
  have "view_matches (do_step s st) i (view_step i w st)"
    by (rule view_matches_step)
  ultimately show ?case
    using Cons.IH rest by simp
qed

lemma view_matches_outcome: "view_matches s i w \<Longrightarrow> outcome_of s i = alone w"
proof (cases w)
  case NotStarted
  assume "view_matches s i w"
  with NotStarted show ?thesis by (simp add: view_matches_def alone_def)
next
  case (Running req events)
  assume m: "view_matches s i w"
  show ?thesis
  proof (cases "validated req")
    case (Inl e)
    with m Running show ?thesis
      by (simp add: view_matches_def alone_def POST_outcome_invalid)
  next
    case (Inr parsed)
    with m Running show ?thesis
      by (simp add: view_matches_def alone_def POST_outcome_valid [OF Inr] respond_def)
  qed
next
  case (Finished req events st)
  assume m: "view_matches s i w"
  show ?thesis
  proof (cases "validated req")
    case (Inl e)
    with m Finished show ?thesis
      by (simp add: view_matches_def alone_def POST_outcome_invalid)
  next
    case (Inr parsed)
    with m Finished show ?thesis
      by (simp add: view_matches_def alone_def POST_outcome_valid [OF Inr])
  qed
qed

lemma outcome_of_run_steps:
  assumes "own_callbacks_only steps"
  shows "outcome_of (run_steps steps) i = alone (own_view i steps)"
proof -
  have "view_matches no_invocations i NotStarted"
    by (simp add: view_matches_def no_invocations_def)
  with closures_separate_init assms
  have "view_matches (foldl do_step no_invocations steps) i (foldl (view_step i) NotStarted steps)"
    by (rule view_matches_foldl)
  then show ?thesis
    unfolding run_steps_def own_view_def by (rule view_matches_outcome)
qed

lemma own_view_without:
  "i \<noteq> j \<Longrightarrow> foldl (view_step i) w (without j steps) = foldl (view_step i) w steps"
proof (induction steps arbitrary: w)
  case Nil
  then show ?case by (simp add: without_def)
next
  case (Cons st steps)
  show ?case
  proof (cases "step_of st = j")
    case True
    with Cons.prems have "view_step i w st = w" by (simp add: other_step_view)
    with True Cons show ?thesis by (simp add: without_def)
  next
    case False
    with Cons show ?thesis by (simp add: without_def)
  qed
qed

lemma own_callbacks_only_without:
  "own_callbacks_only steps \<Longrightarrow> own_callbacks_only (without j steps)"
  by (simp add: own_callbacks_only_def without_def list_all_iff)

lemma run_steps_snoc: "run_steps (steps @ [st]) = do_step (run_steps steps) st"
  by (simp add: run_steps_def)

text \<open>
  The condition on the runs is needed: a run that calls the closure of another
  invocation changes what that invocation returns.
\<close>

lemma foreign_callback_is_seen:
  "\<not> own_callbacks_only foreign_call \<and>
   outcome_of (run_steps foreign_call) 0 \<noteq> outcome_of (run_steps (without 1 foreign_call)) 0"
  by (simp add: own_callbacks_only_def foreign_call_def run_steps_def without_def valid_request_def
        valid_data_parsed new_array_def array_push_def array_read_def push_def respond_def
        settlement_of_def no_invocations_def NextResponse_json_def script_done_def)

section \<open>The claims\<close>

text \<open>
  C1 (as amended). For every request body that fails the validation of the brief (a
  missing required field, a text field below the minimum length, a duration outside
  30 to 300, or any other failure), \<open>payloadSchema.parse\<close> throws before the \<open>try\<close> block is
  entered: the \<open>ZodError\<close> escapes the handler, which builds no response of its own, and
  \<open>runAutomationPipeline\<close> is not called.
\<close>
theorem POST_validation_failure_throws:
  assumes "\<not> accepts payloadSchema b"
  shows "POST p (Request (Inr b)) = \<lparr>outcome = Threw ZodError, pipeline_calls = []\<rparr>"
proof -
  from assms obtain e where e: "payloadSchema b = Inl e"
    using not_accepts_Inl by blast
  then have "e = ZodError" by (rule payloadSchema_error)
  with POST_invalid [OF e] show ?thesis by simp
qed

theorem POST_validation_failure_throws_witness:
  "\<not> accepts payloadSchema (JObject missing_topic_data) \<and>
   POST succeeding_pipeline (Request (Inr (JObject missing_topic_data))) =
     \<lparr>outcome = Threw ZodError, pipeline_calls = []\<rparr>"
proof -
  have h: "\<not> accepts payloadSchema (JObject missing_topic_data)"
    by (simp add: eval_schema missing_topic_data_def)
  show ?thesis
    using h POST_validation_failure_throws [OF h, of succeeding_pipeline] by simp
qed

text \<open>
  C1 as stated fails: for a body whose duration is 29 the handler does not answer with a
  status of the 4xx class.
\<close>

theorem POST_validation_failure_not_4xx_counterexample:
  "\<not> accepts payloadSchema (JObject duration_29_data) \<and>
   \<not> is_4xx (outcome (POST succeeding_pipeline (Request (Inr (JObject duration_29_data)))))"
proof -
  have "payloadSchema (JObject duration_29_data) = Inl ZodError"
    by (simp add: eval_schema duration_29_data_def)
  then show ?thesis
    by (simp add: POST_invalid accepts_def is_4xx_def)
qed

text \<open>
  C2. For every request whose body validates, the handler answers
  \<open>{ok: true, result, statusUpdates}\<close> when the pipeline resolves, and
  \<open>{ok: false, error, statusUpdates}\<close> with a status outside 200 to 299 when it rejects; in
  both cases \<open>statusUpdates\<close> is the whole sequence of the status messages pushed so far.
\<close>
theorem POST_envelope:
  assumes "payloadSchema b = Inr parsed"
  shows "(\<forall>r. settled (p parsed) = Resolves r \<longrightarrow>
            outcome (POST p (Request (Inr b))) =
              Responded \<lparr>status_code = 200, json_body =
                JObject [(ascii ''ok'', JBool True), (ascii ''result'', r),
                         (ascii ''statusUpdates'', JArray (emitted (p parsed)))]\<rparr>) \<and>
         (\<forall>err. settled (p parsed) = Rejects err \<longrightarrow>
            (\<exists>resp. outcome (POST p (Request (Inr b))) = Responded resp \<and>
               \<not> is_2xx (status_code resp) \<and>
               json_body resp =
                 JObject [(ascii ''ok'', JBool False), (ascii ''error'', JString (error_message err)),
                          (ascii ''statusUpdates'', JArray (emitted (p parsed)))]))"
proof (intro conjI allI impI)
  fix r assume "settled (p parsed) = Resolves r"
  with assms POST_resolves [of b parsed p r]
  show "outcome (POST p (Request (Inr b))) =
          Responded \<lparr>status_code = 200, json_body =
            JObject [(ascii ''ok'', JBool True), (ascii ''result'', r),
                     (ascii ''statusUpdates'', JArray (emitted (p parsed)))]\<rparr>"
    by simp
next
  fix err assume "settled (p parsed) = Rejects err"
  with assms POST_rejects [of b parsed p err]
  show "\<exists>resp. outcome (POST p (Request (Inr b))) = Responded resp \<and>
          \<not> is_2xx (status_code resp) \<and>
          json_body resp =
            JObject [(ascii ''ok'', JBool False), (ascii ''error'', JString (error_message err)),
                     (ascii ''statusUpdates'', JArray (emitted (p parsed)))]"
    by (simp add: is_2xx_def)
qed

theorem POST_envelope_witness:
  "payloadSchema (JObject valid_data) = Inr (JObject valid_data) \<and>
   outcome (POST succeeding_pipeline (Request (Inr (JObject valid_data)))) =
     Responded \<lparr>status_code = 200, json_body =
       JObject [(ascii ''ok'', JBool True), (ascii ''result'', some_result),
                (ascii ''statusUpdates'', JArray [script_started, script_done])]\<rparr> \<and>
   (\<exists>resp. outcome (POST (failing_pipeline render_timeout) (Request (Inr (JObject valid_data)))) =
        Responded resp \<and> \<not> is_2xx (status_code resp) \<and>
      json_body resp =
        JObject [(ascii ''ok'', JBool False),
                 (ascii ''error'', JString (ascii ''Pipeline stage failed'')),
                 (ascii ''statusUpdates'', JArray [script_started])])"
  using POST_envelope [of "JObject valid_data" "JObject valid_data" succeeding_pipeline]
        POST_envelope [of "JObject valid_data" "JObject valid_data" "failing_pipeline render_timeout"]
  by (simp add: valid_data_parsed succeeding_pipeline_def failing_pipeline_def
        error_message_def render_timeout_def)

text \<open>
  C3 (as amended). When the pipeline rejects with an instance of \<open>Error\<close>, the \<open>error\<close>
  field of the response is exactly the \<open>message\<close> of that error, with status 500 and the
  buffered status messages; no other property of the error (the failing stage, the
  cause) enters the response.
\<close>
theorem POST_error_field_is_message:
  assumes "payloadSchema b = Inr parsed"
    and "settled (p parsed) = Rejects (ErrorInstance message props)"
  shows "outcome (POST p (Request (Inr b))) =
           Responded \<lparr>status_code = 500, json_body =
             JObject [(ascii ''ok'', JBool False), (ascii ''error'', JString message),
                      (ascii ''statusUpdates'', JArray (emitted (p parsed)))]\<rparr>"
  using assms POST_rejects [of b parsed p "ErrorInstance message props"]
  by (simp add: error_message_def)

theorem POST_error_field_is_message_witness:
  "payloadSchema (JObject valid_data) = Inr (JObject valid_data) \<and>
   settled (failing_pipeline publish_quota (JObject valid_data)) =
     Rejects (ErrorInstance (ascii ''Pipeline stage failed'')
       [(ascii ''stage'', JString (ascii ''Publish'')), (ascii ''cause'', JString (ascii ''quota''))]) \<and>
   outcome (POST (failing_pipeline publish_quota) (Request (Inr (JObject valid_data)))) =
     Responded \<lparr>status_code = 500, json_body =
       JObject [(ascii ''ok'', JBool False),
                (ascii ''error'', JString (ascii ''Pipeline stage failed'')),
                (ascii ''statusUpdates'', JArray [script_started])]\<rparr>"
proof -
  have h: "settled (failing_pipeline publish_quota (JObject valid_data)) =
     Rejects (ErrorInstance (ascii ''Pipeline stage failed'')
       [(ascii ''stage'', JString (ascii ''Publish'')), (ascii ''cause'', JString (ascii ''quota''))])"
    by (simp add: failing_pipeline_def publish_quota_def)
  show ?thesis
    using h valid_data_parsed
      POST_error_field_is_message [of "JObject valid_data" "JObject valid_data"
        "failing_pipeline publish_quota" "ascii ''Pipeline stage failed''"
        "[(ascii ''stage'', JString (ascii ''Publish'')), (ascii ''cause'', JString (ascii ''quota''))]"]
    by (simp add: valid_data_parsed failing_pipeline_def)
qed

text \<open>
  C3 as stated fails: two failures with the same message, one of the Render stage caused
  by a timeout, the other of the Publish stage caused by a quota, give the same response.
\<close>

theorem POST_stage_and_cause_lost_counterexample:
  "render_timeout \<noteq> publish_quota \<and>
   POST (failing_pipeline render_timeout) (Request (Inr (JObject valid_data))) =
   POST (failing_pipeline publish_quota) (Request (Inr (JObject valid_data)))"
proof -
  have "render_timeout \<noteq> publish_quota"
    by (simp add: render_timeout_def publish_quota_def ascii_def)
  moreover have "error_message render_timeout = error_message publish_quota"
    by (simp add: render_timeout_def publish_quota_def error_message_def)
  ultimately show ?thesis
    by (simp add: POST_def valid_data_parsed Let_def failing_pipeline_def)
qed

text \<open>
  C4. For every brief, a successful run of the orchestrator emits exactly eight status
  events, in the order Script start, Script done, Prompt start, Prompt done, Render
  start, Render done, Publish start, Publish done; each start event comes before the
  stage is invoked and each completion event after the stage has succeeded.
\<close>

theorem run_success_emits_eight_events:
  assumes "snd (run A brief) = Inr result"
  shows "fst (run A brief) =
           [Emit \<lparr>stage = Script, detail = Starting\<rparr>, Call Script,
            Emit \<lparr>stage = Script, detail = Completed\<rparr>,
            Emit \<lparr>stage = Prompt, detail = Starting\<rparr>, Call Prompt,
            Emit \<lparr>stage = Prompt, detail = Completed\<rparr>,
            Emit \<lparr>stage = Render, detail = Starting\<rparr>, Call Render,
            Emit \<lparr>stage = Render, detail = Completed\<rparr>,
            Emit \<lparr>stage = Publish, detail = Starting\<rparr>, Call Publish,
            Emit \<lparr>stage = Publish, detail = Completed\<rparr>] \<and>
         sink (fst (run A brief)) =
           [\<lparr>stage = Script, detail = Starting\<rparr>, \<lparr>stage = Script, detail = Completed\<rparr>,
            \<lparr>stage = Prompt, detail = Starting\<rparr>, \<lparr>stage = Prompt, detail = Completed\<rparr>,
            \<lparr>stage = Render, detail = Starting\<rparr>, \<lparr>stage = Render, detail = Completed\<rparr>,
            \<lparr>stage = Publish, detail = Starting\<rparr>, \<lparr>stage = Publish, detail = Completed\<rparr>] \<and>
         length (sink (fst (run A brief))) = 8"
proof -
  obtain s where s: "scriptwriter A brief = Inr s"
    using assms by (cases "scriptwriter A brief") (simp_all add: run_def and_then_def run_stage_def)
  obtain ps where ps: "promptDesigner A s = Inr ps"
    using assms s
    by (cases "promptDesigner A s") (simp_all add: run_def and_then_def run_stage_def)
  obtain r where r: "renderer A ps s = Inr r"
    using assms s ps
    by (cases "renderer A ps s") (simp_all add: run_def and_then_def run_stage_def)
  obtain pub where pub: "publisher A r brief = Inr pub"
    using assms s ps r
    by (cases "publisher A r brief") (simp_all add: run_def and_then_def run_stage_def)
  have "fst (run A brief) =
           [Emit \<lparr>stage = Script, detail = Starting\<rparr>, Call Script,
            Emit \<lparr>stage = Script, detail = Completed\<rparr>,
            Emit \<lparr>stage = Prompt, detail = Starting\<rparr>, Call Prompt,
            Emit \<lparr>stage = Prompt, detail = Completed\<rparr>,
            Emit \<lparr>stage = Render, detail = Starting\<rparr>, Call Render,
            Emit \<lparr>stage = Render, detail = Completed\<rparr>,
            Emit \<lparr>stage = Publish, detail = Starting\<rparr>, Call Publish,
            Emit \<lparr>stage = Publish, detail = Completed\<rparr>]"
    by (simp add: run_def and_then_def run_stage_def s ps r pub)
  then show ?thesis by simp
qed

theorem run_success_emits_eight_events_witness:
  "snd (run stub_adapters (JObject valid_data)) =
     Inr \<lparr>script = JString (ascii ''script''), visualPrompts = [JString (ascii ''scene 1'')],
          videoDownloadUrl = JString (ascii ''https://cdn/render.mp4''),
          youtubeVideoUrl = JString (ascii ''https://youtu.be/x''), metadata = JArray []\<rparr> \<and>
   sink (fst (run stub_adapters (JObject valid_data))) =
           [\<lparr>stage = Script, detail = Starting\<rparr>, \<lparr>stage = Script, detail = Completed\<rparr>,
            \<lparr>stage = Prompt, detail = Starting\<rparr>, \<lparr>stage = Prompt, detail = Completed\<rparr>,
            \<lparr>stage = Render, detail = Starting\<rparr>, \<lparr>stage = Render, detail = Completed\<rparr>,
            \<lparr>stage = Publish, detail = Starting\<rparr>, \<lparr>stage = Publish, detail = Completed\<rparr>] \<and>
   length (sink (fst (run stub_adapters (JObject valid_data)))) = 8"
proof -
  have h: "snd (run stub_adapters (JObject valid_data)) =
     Inr \<lparr>script = JString (ascii ''script''), visualPrompts = [JString (ascii ''scene 1'')],
          videoDownloadUrl = JString (ascii ''https://cdn/render.mp4''),
          youtubeVideoUrl = JString (ascii ''https://youtu.be/x''), metadata = JArray []\<rparr>"
    by (simp add: run_def and_then_def run_stage_def stub_adapters_def)
  show ?thesis
    using h run_success_emits_eight_events [OF h] by simp
qed

text \<open>
  C5. In a body whose other fields are valid, the validation of the brief accepts
  \<open>durationSeconds\<close> 30 and 300, rejects 29 and 301, rejects every number that is not an
  integer, and accepts the body when \<open>durationSeconds\<close> is absent.
\<close>

theorem durationSeconds_bounds:
  assumes "text_of_length_at_least 3 (get_prop data (ascii ''topic''))"
    and "text_of_length_at_least 3 (get_prop data (ascii ''targetAudience''))"
    and "text_of_length_at_least 3 (get_prop data (ascii ''contentGoals''))"
    and "absent_or_text (get_prop data (ascii ''tone''))"
    and "absent_or_keywords (get_prop data (ascii ''keywords''))"
    and "absent_or_text (get_prop data (ascii ''callToAction''))"
  shows "accepts payloadSchema (JObject (set_prop data (ascii ''durationSeconds'') (JNumber (Finite 30)))) \<and>
         accepts payloadSchema (JObject (set_prop data (ascii ''durationSeconds'') (JNumber (Finite 300)))) \<and>
         \<not> accepts payloadSchema (JObject (set_prop data (ascii ''durationSeconds'') (JNumber (Finite 29)))) \<and>
         \<not> accepts payloadSchema (JObject (set_prop data (ascii ''durationSeconds'') (JNumber (Finite 301)))) \<and>
         (\<forall>r. r \<notin> \<int> \<longrightarrow>
            \<not> accepts payloadSchema (JObject (set_prop data (ascii ''durationSeconds'') (JNumber (Finite r))))) \<and>
         accepts payloadSchema (JObject (delete_prop data (ascii ''durationSeconds'')))"
proof -
  have set: "accepts payloadSchema (JObject (set_prop data (ascii ''durationSeconds'') v)) =
               absent_or_duration v" for v
    using assms
    by (simp add: payloadSchema_accepts_iff get_prop_set_prop duration_key_distinct)
  have del: "accepts payloadSchema (JObject (delete_prop data (ascii ''durationSeconds'')))"
    using assms
    by (simp add: payloadSchema_accepts_iff get_prop_delete_prop duration_key_distinct
          absent_or_duration_simps)
  show ?thesis
    unfolding set using del by (simp add: absent_or_duration_simps)
qed

theorem durationSeconds_bounds_witness:
  "text_of_length_at_least 3 (get_prop valid_data (ascii ''topic'')) \<and>
   text_of_length_at_least 3 (get_prop valid_data (ascii ''targetAudience'')) \<and>
   text_of_length_at_least 3 (get_prop valid_data (ascii ''contentGoals'')) \<and>
   absent_or_text (get_prop valid_data (ascii ''tone'')) \<and>
   absent_or_keywords (get_prop valid_data (ascii ''keywords'')) \<and>
   absent_or_text (get_prop valid_data (ascii ''callToAction'')) \<and>
   accepts payloadSchema (JObject (set_prop valid_data (ascii ''durationSeconds'') (JNumber (Finite 30)))) \<and>
   accepts payloadSchema (JObject (set_prop valid_data (ascii ''durationSeconds'') (JNumber (Finite 300)))) \<and>
   \<not> accepts payloadSchema (JObject (set_prop valid_data (ascii ''durationSeconds'') (JNumber (Finite 29)))) \<and>
   \<not> accepts payloadSchema (JObject (set_prop valid_data (ascii ''durationSeconds'') (JNumber (Finite 301)))) \<and>
   \<not> accepts payloadSchema
       (JObject (set_prop valid_data (ascii ''durationSeconds'') (JNumber (Finite (61 / 2))))) \<and>
   accepts payloadSchema (JObject (delete_prop valid_data (ascii ''durationSeconds'')))"
proof -
  have h1: "text_of_length_at_least 3 (get_prop valid_data (ascii ''topic''))"
    by (simp add: valid_data_def get_prop_def ascii_def text_of_length_at_least_def)
  have h2: "text_of_length_at_least 3 (get_prop valid_data (ascii ''targetAudience''))"
    by (simp add: valid_data_def get_prop_def ascii_def text_of_length_at_least_def)
  have h3: "text_of_length_at_least 3 (get_prop valid_data (ascii ''contentGoals''))"
    by (simp add: valid_data_def get_prop_def ascii_def text_of_length_at_least_def)
  have h4: "absent_or_text (get_prop valid_data (ascii ''tone''))"
    by (simp add: valid_data_def get_prop_def ascii_def absent_or_text_def)
  have h5: "absent_or_keywords (get_prop valid_data (ascii ''keywords''))"
    by (simp add: valid_data_def get_prop_def ascii_def absent_or_keywords_def)
  have h6: "absent_or_text (get_prop valid_data (ascii ''callToAction''))"
    by (simp add: valid_data_def get_prop_def ascii_def absent_or_text_def)
  note bounds = durationSeconds_bounds [OF h1 h2 h3 h4 h5 h6]
  have half: "(61 / 2 :: rat) \<notin> \<int>" by simp
  from bounds have
    "\<forall>r. r \<notin> \<int> \<longrightarrow>
       \<not> accepts payloadSchema
           (JObject (set_prop valid_data (ascii ''durationSeconds'') (JNumber (Finite r))))"
    by blast
  with half have
    "\<not> accepts payloadSchema
        (JObject (set_prop valid_data (ascii ''durationSeconds'') (JNumber (Finite (61 / 2)))))"
    by blast
  with h1 h2 h3 h4 h5 h6 bounds show ?thesis by blast
qed

text \<open>
  C6 (as amended). For every body whose \<open>topic\<close>, \<open>targetAudience\<close> and \<open>contentGoals\<close> are
  strings and whose optional fields, when present, satisfy their own constraints, the
  validation accepts the body exactly when each of the three strings has at least 3
  UTF-16 code units.
\<close>

theorem text_fields_minimum_length:
  assumes "get_prop data (ascii ''topic'') = JString t"
    and "get_prop data (ascii ''targetAudience'') = JString a"
    and "get_prop data (ascii ''contentGoals'') = JString g"
    and "absent_or_text (get_prop data (ascii ''tone''))"
    and "absent_or_keywords (get_prop data (ascii ''keywords''))"
    and "absent_or_text (get_prop data (ascii ''callToAction''))"
    and "absent_or_duration (get_prop data (ascii ''durationSeconds''))"
  shows "accepts payloadSchema (JObject data) \<longleftrightarrow> 3 \<le> length t \<and> 3 \<le> length a \<and> 3 \<le> length g"
  using assms by (simp add: payloadSchema_accepts_iff text_of_length_at_least_def)

theorem text_fields_minimum_length_witness:
  "get_prop valid_data (ascii ''topic'') = JString (ascii ''AI automation for video creators'') \<and>
   get_prop valid_data (ascii ''targetAudience'') = JString (ascii ''Busy YouTubers'') \<and>
   get_prop valid_data (ascii ''contentGoals'') = JString (ascii ''Educate on automation'') \<and>
   absent_or_text (get_prop valid_data (ascii ''tone'')) \<and>
   absent_or_keywords (get_prop valid_data (ascii ''keywords'')) \<and>
   absent_or_text (get_prop valid_data (ascii ''callToAction'')) \<and>
   absent_or_duration (get_prop valid_data (ascii ''durationSeconds'')) \<and>
   accepts payloadSchema (JObject valid_data)"
proof -
  have h1: "get_prop valid_data (ascii ''topic'') = JString (ascii ''AI automation for video creators'')"
    by (simp add: valid_data_def get_prop_def ascii_def)
  have h2: "get_prop valid_data (ascii ''targetAudience'') = JString (ascii ''Busy YouTubers'')"
    by (simp add: valid_data_def get_prop_def ascii_def)
  have h3: "get_prop valid_data (ascii ''contentGoals'') = JString (ascii ''Educate on automation'')"
    by (simp add: valid_data_def get_prop_def ascii_def)
  have h4: "absent_or_text (get_prop valid_data (ascii ''tone''))"
    by (simp add: valid_data_def get_prop_def ascii_def absent_or_text_def)
  have h5: "absent_or_keywords (get_prop valid_data (ascii ''keywords''))"
    by (simp add: valid_data_def get_prop_def ascii_def absent_or_keywords_def)
  have h6: "absent_or_text (get_prop valid_data (ascii ''callToAction''))"
    by (simp add: valid_data_def get_prop_def ascii_def absent_or_text_def)
  have h7: "absent_or_duration (get_prop valid_data (ascii ''durationSeconds''))"
    by (simp add: valid_data_def get_prop_def ascii_def absent_or_duration_simps)
  have "accepts payloadSchema (JObject valid_data)"
    using text_fields_minimum_length [OF h1 h2 h3 h4 h5 h6 h7] by (simp add: ascii_def)
  with h1 h2 h3 h4 h5 h6 h7 show ?thesis by blast
qed

text \<open>
  C6 as stated fails: a body whose three text fields are non-empty strings and whose
  optional fields are absent is rejected when the topic has two characters.
\<close>

theorem non_empty_text_rejected_counterexample:
  "get_prop short_topic_data (ascii ''topic'') = JString (ascii ''AI'') \<and> ascii ''AI'' \<noteq> [] \<and>
   get_prop short_topic_data (ascii ''targetAudience'') = JString (ascii ''Busy YouTubers'') \<and>
   ascii ''Busy YouTubers'' \<noteq> [] \<and>
   get_prop short_topic_data (ascii ''contentGoals'') = JString (ascii ''Educate on automation'') \<and>
   ascii ''Educate on automation'' \<noteq> [] \<and>
   absent_or_text (get_prop short_topic_data (ascii ''tone'')) \<and>
   absent_or_keywords (get_prop short_topic_data (ascii ''keywords'')) \<and>
   absent_or_text (get_prop short_topic_data (ascii ''callToAction'')) \<and>
   absent_or_duration (get_prop short_topic_data (ascii ''durationSeconds'')) \<and>
   \<not> accepts payloadSchema (JObject short_topic_data)"
  by (simp add: eval_schema short_topic_data_def absent_or_text_def absent_or_keywords_def
        absent_or_duration_simps)

text \<open>
  C7 (as amended). The endpoint accepts what the form submits exactly when the
  constraints of the form hold (the three required texts not empty, the duration an
  integer from 30 to 300) and, beyond them, \<open>topic\<close>, \<open>targetAudience\<close> and \<open>contentGoals\<close>
  have at least 3 UTF-16 code units each. The bounds of the duration are the same on
  both sides, and \<open>tone\<close>, \<open>keywords\<close> and \<open>callToAction\<close> never cause a rejection.
\<close>

theorem form_and_schema_bounds:
  "accepts payloadSchema (handleSubmit_body form) \<longleftrightarrow>
     form_constraints_ok form \<and>
     3 \<le> length (topic form) \<and> 3 \<le> length (targetAudience form) \<and> 3 \<le> length (contentGoals form)"
proof -
  have "accepts payloadSchema (handleSubmit_body form) \<longleftrightarrow>
          3 \<le> length (topic form) \<and> 3 \<le> length (targetAudience form) \<and>
          3 \<le> length (contentGoals form) \<and>
          durationSeconds form \<in> \<int> \<and> 30 \<le> durationSeconds form \<and> durationSeconds form \<le> 300"
    unfolding handleSubmit_body_def payloadSchema_accepts_iff
    by (simp add: get_prop_def ascii_def keyword_list_accepted text_of_length_at_least_def
          absent_or_text_def absent_or_duration_simps)
  moreover have "form_constraints_ok form \<longleftrightarrow>
          topic form \<noteq> [] \<and> targetAudience form \<noteq> [] \<and> contentGoals form \<noteq> [] \<and>
          durationSeconds form \<in> \<int> \<and> 30 \<le> durationSeconds form \<and> durationSeconds form \<le> 300"
    unfolding form_constraints_ok_def step_from_minimum by auto
  ultimately show ?thesis by auto
qed

theorem form_and_schema_bounds_witness:
  "form_constraints_ok initialForm \<and>
   accepts payloadSchema (handleSubmit_body initialForm)"
proof -
  have ok: "form_constraints_ok initialForm"
    by (simp add: form_constraints_ok_def initialForm_def ascii_def)
  have "3 \<le> length (topic initialForm) \<and> 3 \<le> length (targetAudience initialForm) \<and>
        3 \<le> length (contentGoals initialForm)"
    by (simp add: initialForm_def ascii_def)
  with ok form_and_schema_bounds [of initialForm] show ?thesis by blast
qed

text \<open>
  C7 as stated fails: a form whose topic has two characters satisfies every constraint
  of the form, and the endpoint rejects what it submits.
\<close>

theorem form_weaker_than_schema_counterexample:
  "form_constraints_ok short_topic_form \<and>
   \<not> accepts payloadSchema (handleSubmit_body short_topic_form)"
  by (simp add: eval_schema form_constraints_ok_def handleSubmit_body_def short_topic_form_def
        initialForm_def)
text \<open>
  C8. Each invocation of the handler that passes validation allocates its own array,
  empty when allocated and held by no other invocation. Under every interleaving of
  invocations whose pipeline runs call only the \<open>onStatus\<close> they were given, what an
  invocation returns is what \<open>POST\<close> returns for its own request and its own run, so its
  \<open>statusUpdates\<close> are the status messages of its own run only; removing every step of
  another invocation from the schedule does not change it.
\<close>

theorem statusUpdates_fresh_and_isolated:
  assumes "own_callbacks_only steps"
  shows "(payloadSchema b = Inr parsed \<longrightarrow>
            statusUpdates_of (run_steps (steps @ [Start i (Request (Inr b))])) i = Some []) \<and>
         (i \<noteq> j \<longrightarrow>
            closure_of (run_steps steps) i = None \<or>
            closure_of (run_steps steps) i \<noteq> closure_of (run_steps steps) j) \<and>
         outcome_of (run_steps steps) i = alone (own_view i steps) \<and>
         (i \<noteq> j \<longrightarrow>
            outcome_of (run_steps (without j steps)) i = outcome_of (run_steps steps) i)"
proof (intro conjI impI)
  assume "payloadSchema b = Inr parsed"
  then have "validated (Request (Inr b)) = Inr parsed"
    by (simp add: validated_Request)
  then have "do_step (run_steps steps) (Start i (Request (Inr b))) =
      \<lparr>heap_of = heap_of (run_steps steps) @ [[]],
       closure_of = (closure_of (run_steps steps))(i \<mapsto> length (heap_of (run_steps steps))),
       outcome_of = (outcome_of (run_steps steps))(i \<mapsto> NoResponse)\<rparr>"
    by (rule do_step_Start_valid)
  then show "statusUpdates_of (run_steps (steps @ [Start i (Request (Inr b))])) i = Some []"
    unfolding run_steps_snoc by (simp add: statusUpdates_of_def array_read_def)
next
  assume ij: "i \<noteq> j"
  show "closure_of (run_steps steps) i = None \<or>
        closure_of (run_steps steps) i \<noteq> closure_of (run_steps steps) j"
  proof (cases "closure_of (run_steps steps) i")
    case None
    then show ?thesis by simp
  next
    case (Some a)
    have "closure_of (run_steps steps) j \<noteq> Some a"
    proof
      assume "closure_of (run_steps steps) j = Some a"
      with Some closures_separate_run_steps [of steps] have "i = j"
        unfolding closures_separate_def by blast
      with ij show False by simp
    qed
    with Some show ?thesis by simp
  qed
next
  from assms show "outcome_of (run_steps steps) i = alone (own_view i steps)"
    by (rule outcome_of_run_steps)
next
  assume ij: "i \<noteq> j"
  from assms have "own_callbacks_only (without j steps)"
    by (rule own_callbacks_only_without)
  then have "outcome_of (run_steps (without j steps)) i = alone (own_view i (without j steps))"
    by (rule outcome_of_run_steps)
  also have "own_view i (without j steps) = own_view i steps"
    using ij by (simp add: own_view_def own_view_without)
  also have "alone (own_view i steps) = outcome_of (run_steps steps) i"
    using assms by (simp add: outcome_of_run_steps)
  finally show "outcome_of (run_steps (without j steps)) i = outcome_of (run_steps steps) i" .
qed

theorem statusUpdates_fresh_and_isolated_witness:
  "own_callbacks_only two_runs \<and> (0::nat) \<noteq> 1 \<and>
   payloadSchema (JObject valid_data) = Inr (JObject valid_data) \<and>
   statusUpdates_of (run_steps (two_runs @ [Start 2 (Request (Inr (JObject valid_data)))])) 2 =
     Some [] \<and>
   outcome_of (run_steps two_runs) 0 =
     Some (Responded \<lparr>status_code = 200, json_body =
       JObject [(ascii ''ok'', JBool True), (ascii ''result'', some_result),
                (ascii ''statusUpdates'', JArray [script_started, script_done])]\<rparr>) \<and>
   outcome_of (run_steps (without 1 two_runs)) 0 =
     Some (Responded \<lparr>status_code = 200, json_body =
       JObject [(ascii ''ok'', JBool True), (ascii ''result'', some_result),
                (ascii ''statusUpdates'', JArray [script_started, script_done])]\<rparr>) \<and>
   outcome_of (run_steps two_runs) 1 =
     Some (Responded \<lparr>status_code = 500, json_body =
       JObject [(ascii ''ok'', JBool False),
                (ascii ''error'', JString (ascii ''Pipeline stage failed'')),
                (ascii ''statusUpdates'', JArray [script_started])]\<rparr>)"
proof -
  have own: "own_callbacks_only two_runs"
    by (simp add: own_callbacks_only_def two_runs_def)
  have ne: "(0::nat) \<noteq> 1" by simp
  note isolated = statusUpdates_fresh_and_isolated [OF own]
  have fresh:
    "statusUpdates_of (run_steps (two_runs @ [Start 2 (Request (Inr (JObject valid_data)))])) 2 =
       Some []"
    using isolated [of "JObject valid_data" "JObject valid_data" 2 0] valid_data_parsed
    by blast
  have view: "own_view 0 two_runs =
          Finished valid_request [script_started, script_done] (Resolves some_result)"
    by (simp add: own_view_def two_runs_def push_def settlement_of_def)
  have "outcome_of (run_steps two_runs) 0 = alone (own_view 0 two_runs)"
    using isolated [of "JObject valid_data" "JObject valid_data" 0 1] by blast
  also have "\<dots> =
     Some (Responded \<lparr>status_code = 200, json_body =
       JObject [(ascii ''ok'', JBool True), (ascii ''result'', some_result),
                (ascii ''statusUpdates'', JArray [script_started, script_done])]\<rparr>)"
    unfolding view
    by (simp add: alone_def valid_request_def POST_def valid_data_parsed Let_def foldl_push
          NextResponse_json_def)
  finally have answer: "outcome_of (run_steps two_runs) 0 =
     Some (Responded \<lparr>status_code = 200, json_body =
       JObject [(ascii ''ok'', JBool True), (ascii ''result'', some_result),
                (ascii ''statusUpdates'', JArray [script_started, script_done])]\<rparr>)" .
  have "outcome_of (run_steps (without 1 two_runs)) 0 = outcome_of (run_steps two_runs) 0"
    using isolated [of "JObject valid_data" "JObject valid_data" 0 1] ne by blast
  with answer have "outcome_of (run_steps (without 1 two_runs)) 0 =
     Some (Responded \<lparr>status_code = 200, json_body =
       JObject [(ascii ''ok'', JBool True), (ascii ''result'', some_result),
                (ascii ''statusUpdates'', JArray [script_started, script_done])]\<rparr>)"
    by simp
  have view1: "own_view 1 two_runs =
          Finished valid_request [script_started] (Rejects render_timeout)"
    by (simp add: own_view_def two_runs_def push_def settlement_of_def)
  have "outcome_of (run_steps two_runs) 1 = alone (own_view 1 two_runs)"
    using isolated [of "JObject valid_data" "JObject valid_data" 1 0] by blast
  also have "\<dots> =
     Some (Responded \<lparr>status_code = 500, json_body =
       JObject [(ascii ''ok'', JBool False),
                (ascii ''error'', JString (ascii ''Pipeline stage failed'')),
                (ascii ''statusUpdates'', JArray [script_started])]\<rparr>)"
    unfolding view1
    by (simp add: alone_def valid_request_def POST_def valid_data_parsed Let_def foldl_push
          NextResponse_json_def error_message_def render_timeout_def)
  finally have other: "outcome_of (run_steps two_runs) 1 =
     Some (Responded \<lparr>status_code = 500, json_body =
       JObject [(ascii ''ok'', JBool False),
                (ascii ''error'', JString (ascii ''Pipeline stage failed'')),
                (ascii ''statusUpdates'', JArray [script_started])]\<rparr>)" .
  from own ne valid_data_parsed fresh answer \<open>outcome_of (run_steps (without 1 two_runs)) 0 =
     Some (Responded \<lparr>status_code = 200, json_body =
       JObject [(ascii ''ok'', JBool True), (ascii ''result'', some_result),
                (ascii ''statusUpdates'', JArray [script_started, script_done])]\<rparr>)\<close> other
  show ?thesis by blast
qed

text \<open>
  C9. For every request, the value that \<open>POST\<close> passes to \<open>runAutomationPipeline\<close> is an
  object with at most the seven declared fields of the brief: the whole result of the
  handler is the same for two pipelines that agree on such objects, however they differ
  on values with other fields, so that no other field of the raw body reaches the
  pipeline.
\<close>

theorem POST_passes_declared_fields_only:
  assumes "\<forall>v. (\<exists>out. v = JObject out) \<and>
               keys_of v \<subseteq>
                 {ascii ''topic'', ascii ''targetAudience'', ascii ''contentGoals'', ascii ''tone'',
                  ascii ''keywords'', ascii ''callToAction'', ascii ''durationSeconds''} \<longrightarrow>
               p v = p' v"
  shows "POST p req = POST p' req \<and>
         (\<forall>v \<in> set (pipeline_calls (POST p req)).
            (\<exists>out. v = JObject out) \<and>
            keys_of v \<subseteq>
              {ascii ''topic'', ascii ''targetAudience'', ascii ''contentGoals'', ascii ''tone'',
               ascii ''keywords'', ascii ''callToAction'', ascii ''durationSeconds''})"
proof (cases req)
  case (Request r)
  show ?thesis
  proof (cases r)
    case (Inl e)
    with Request show ?thesis by (simp add: POST_def)
  next
    case (Inr b)
    show ?thesis
    proof (cases "payloadSchema b")
      case (Inl e)
      with Request \<open>r = Inr b\<close> show ?thesis by (simp add: POST_def)
    next
      case (Inr parsed)
      from payloadSchema_keys [OF Inr] obtain out where
        out: "parsed = JObject out" and
        keys: "fst ` set out \<subseteq>
           {ascii ''topic'', ascii ''targetAudience'', ascii ''contentGoals'', ascii ''tone'',
            ascii ''keywords'', ascii ''callToAction'', ascii ''durationSeconds''}"
        by blast
      from out keys have declared:
        "(\<exists>out. parsed = JObject out) \<and>
         keys_of parsed \<subseteq>
           {ascii ''topic'', ascii ''targetAudience'', ascii ''contentGoals'', ascii ''tone'',
            ascii ''keywords'', ascii ''callToAction'', ascii ''durationSeconds''}"
        by (simp add: keys_of_def)
      with assms have same: "p parsed = p' parsed" by blast
      have "POST p req = POST p' req"
        using Request \<open>r = Inr b\<close> Inr same by (simp add: POST_def Let_def)
      moreover have "pipeline_calls (POST p req) = [parsed]"
        using Request \<open>r = Inr b\<close> Inr by (simp add: POST_def Let_def)
      ultimately show ?thesis using declared by simp
    qed
  qed
qed

theorem POST_passes_declared_fields_only_witness:
  "echo_pipeline (JObject extra_field_data) \<noteq> admin_pipeline (JObject extra_field_data) \<and>
   POST echo_pipeline (Request (Inr (JObject extra_field_data))) =
     POST admin_pipeline (Request (Inr (JObject extra_field_data))) \<and>
   outcome (POST echo_pipeline (Request (Inr (JObject extra_field_data)))) =
     Responded \<lparr>status_code = 200, json_body =
       JObject [(ascii ''ok'', JBool True),
                (ascii ''result'',
                 JObject [(ascii ''topic'', JString (ascii ''AI automation for video creators'')),
                          (ascii ''targetAudience'', JString (ascii ''Busy YouTubers'')),
                          (ascii ''contentGoals'', JString (ascii ''Educate on automation''))]),
                (ascii ''statusUpdates'', JArray [])]\<rparr>"
proof -
  have agree: "\<forall>v. (\<exists>out. v = JObject out) \<and>
               keys_of v \<subseteq>
                 {ascii ''topic'', ascii ''targetAudience'', ascii ''contentGoals'', ascii ''tone'',
                  ascii ''keywords'', ascii ''callToAction'', ascii ''durationSeconds''} \<longrightarrow>
               echo_pipeline v = admin_pipeline v"
  proof (intro allI impI)
    fix v
    assume v: "(\<exists>out. v = JObject out) \<and>
               keys_of v \<subseteq>
                 {ascii ''topic'', ascii ''targetAudience'', ascii ''contentGoals'', ascii ''tone'',
                  ascii ''keywords'', ascii ''callToAction'', ascii ''durationSeconds''}"
    then obtain out where out: "v = JObject out" by blast
    have "ascii ''isAdmin'' \<notin>
            {ascii ''topic'', ascii ''targetAudience'', ascii ''contentGoals'', ascii ''tone'',
             ascii ''keywords'', ascii ''callToAction'', ascii ''durationSeconds''}"
      by (simp add: ascii_def)
    with v out have "ascii ''isAdmin'' \<notin> fst ` set out"
      by (auto simp: keys_of_def)
    then have "\<not> has_key out (ascii ''isAdmin'')"
      by (simp add: has_key_def map_of_eq_None_iff)
    with out show "echo_pipeline v = admin_pipeline v"
      by (simp add: admin_pipeline_def)
  qed
  have differ: "echo_pipeline (JObject extra_field_data) \<noteq> admin_pipeline (JObject extra_field_data)"
    by (simp add: echo_pipeline_def admin_pipeline_def extra_field_data_def has_key_def ascii_def)
  have parsed: "payloadSchema (JObject extra_field_data) =
     Inr (JObject [(ascii ''topic'', JString (ascii ''AI automation for video creators'')),
               (ascii ''targetAudience'', JString (ascii ''Busy YouTubers'')),
               (ascii ''contentGoals'', JString (ascii ''Educate on automation''))])"
    by (simp add: eval_schema extra_field_data_def)
  have answer: "outcome (POST echo_pipeline (Request (Inr (JObject extra_field_data)))) =
     Responded \<lparr>status_code = 200, json_body =
       JObject [(ascii ''ok'', JBool True),
                (ascii ''result'',
                 JObject [(ascii ''topic'', JString (ascii ''AI automation for video creators'')),
                          (ascii ''targetAudience'', JString (ascii ''Busy YouTubers'')),
                          (ascii ''contentGoals'', JString (ascii ''Educate on automation''))]),
                (ascii ''statusUpdates'', JArray [])]\<rparr>"
    by (simp add: POST_def parsed Let_def echo_pipeline_def NextResponse_json_def)
  from POST_passes_declared_fields_only [OF agree, of "Request (Inr (JObject extra_field_data))"]
  have "POST echo_pipeline (Request (Inr (JObject extra_field_data))) =
          POST admin_pipeline (Request (Inr (JObject extra_field_data)))"
    by (rule conjunct1)
  with differ answer show ?thesis by blast
qed

text \<open>
  C10. If the pipeline rejects with a value that is not an instance of \<open>Error\<close>, the
  handler still answers the failure envelope, with status 500 and the \<open>error\<close> field equal
  to the string \<open>Unknown pipeline failure\<close>.
\<close>
theorem POST_unknown_pipeline_failure:
  assumes "payloadSchema b = Inr parsed"
    and "settled (p parsed) = Rejects (NonError v)"
  shows "outcome (POST p (Request (Inr b))) =
           Responded \<lparr>status_code = 500, json_body =
             JObject [(ascii ''ok'', JBool False),
                      (ascii ''error'', JString (ascii ''Unknown pipeline failure'')),
                      (ascii ''statusUpdates'', JArray (emitted (p parsed)))]\<rparr>"
  using assms POST_rejects [of b parsed p "NonError v"]
  by (simp add: error_message_def)

theorem POST_unknown_pipeline_failure_witness:
  "payloadSchema (JObject valid_data) = Inr (JObject valid_data) \<and>
   settled (failing_pipeline (NonError (JString (ascii ''quota''))) (JObject valid_data)) =
     Rejects (NonError (JString (ascii ''quota''))) \<and>
   outcome (POST (failing_pipeline (NonError (JString (ascii ''quota''))))
              (Request (Inr (JObject valid_data)))) =
     Responded \<lparr>status_code = 500, json_body =
       JObject [(ascii ''ok'', JBool False),
                (ascii ''error'', JString (ascii ''Unknown pipeline failure'')),
                (ascii ''statusUpdates'', JArray [script_started])]\<rparr>"
proof -
  have h: "settled (failing_pipeline (NonError (JString (ascii ''quota''))) (JObject valid_data)) =
     Rejects (NonError (JString (ascii ''quota'')))"
    by (simp add: failing_pipeline_def)
  show ?thesis
    using h valid_data_parsed
      POST_unknown_pipeline_failure [of "JObject valid_data" "JObject valid_data"
        "failing_pipeline (NonError (JString (ascii ''quota'')))" "JString (ascii ''quota'')"]
    by (simp add: valid_data_parsed failing_pipeline_def)
qed

end
